theory Spec2Isabelle
  imports Complex_Main
begin

section \<open>Flow control components of lab.js: values, objects and effects\<close>

text \<open>
  The flow control module (\<^verbatim>\<open>prepareNested\<close>, \<^verbatim>\<open>Sequence\<close>, \<^verbatim>\<open>Loop\<close>,
  \<^verbatim>\<open>Parallel\<close>) works on component objects that it shares by reference with the rest
  of the library. Objects live in an explicit store, addressed by natural numbers; every
  call the module makes on a collaborator (a child component, the console, the random
  number service) and every field it writes on a child is appended to an effect log, in
  program order.
\<close>

type_synonym addr = nat

text \<open>
  JavaScript values, as far as the module inspects them: the primitive values, and
  references to objects of the store.
\<close>

datatype jsval = JUndefined | JNull | JBool bool | JNum real | JNaN | JStr string | JRef addr

text \<open>The truthiness test of a conditional (\<^verbatim>\<open>x ? a : b\<close>).\<close>

fun truthy :: "jsval \<Rightarrow> bool" where
  "truthy JUndefined = False"
| "truthy JNull = False"
| "truthy (JBool b) = b"
| "truthy (JNum x) = (x \<noteq> 0)"
| "truthy JNaN = False"
| "truthy (JStr s) = (s \<noteq> [])"
| "truthy (JRef a) = True"

text \<open>
  A parameter bag: an object with string keys. A value that is itself an object is held by
  reference, as the address of that object among the bags of the store.
\<close>

type_synonym bag = "string \<rightharpoonup> jsval"

text \<open>
  Modelled from the spec: the \<^verbatim>\<open>status\<close> enumeration imported from the core module,
  which is not part of the sources at hand. The spec lists the four values, in this
  order, and calls them comparable.
\<close>

datatype status = Initialized | Prepared | Running | Done

fun status_rank :: "status \<Rightarrow> nat" where
  "status_rank Initialized = 0"
| "status_rank Prepared = 1"
| "status_rank Running = 2"
| "status_rank Done = 3"

datatype error = Error string | TypeError string

text \<open>A bound method used as an event handler: \<^verbatim>\<open>this.step.bind(this)\<close>.\<close>

datatype handler = Stepper addr

text \<open>Effects on collaborators, in the order the code performs them.\<close>

datatype effect =
    SetParent addr addr
  | SetId addr string
  | CallPrepare addr bool
  | CallRun addr jsval jsval
  | CallEnd addr jsval jsval
  | CallOn addr string "handler option"
  | CallOff addr string "handler option"
  | CallWaitFor addr string
  | CallClone addr
  | CallShuffle "addr list"
  | CallSample "bag list" jsval jsval
  | ConsoleWarn string

subsection \<open>Numbers\<close>

text \<open>
  The value of a \<^verbatim>\<open>progress\<close> getter is a number: \<^verbatim>\<open>NaN\<close>, an infinity (\<open>True\<close>
  for the positive one) or a finite double, written as the real number it stands for (the
  two zeros are not told apart). Arithmetic on numbers gives the double nearest to the
  exact result, the one with the even significand when two are equally near, and an
  infinity when that is out of range: \<open>binade\<close> is the exponent of the argument (that
  of the subnormal numbers at the least), and the doubles near it are the multiples of
  \<open>pow2 (binade x - 52)\<close>.
\<close>

datatype number = NaN | Infinity bool | Num real

definition pow2 :: "int \<Rightarrow> real" where
  "pow2 k = (if 0 \<le> k then 2 ^ nat k else 1 / 2 ^ nat (- k))"

definition binade :: "real \<Rightarrow> int" where
  "binade x = max \<lfloor>log 2 \<bar>x\<bar>\<rfloor> (- 1022)"

definition nearest_even :: "real \<Rightarrow> int" where
  "nearest_even q =
     (let f = \<lfloor>q\<rfloor>; d = q - of_int f
      in if d < 1 / 2 then f else if 1 / 2 < d then f + 1 else if even f then f else f + 1)"

definition to_double :: "real \<Rightarrow> number" where
  "to_double x =
     (if x = 0 then Num 0
      else (let u = pow2 (binade x - 52);
                r = of_int (nearest_even (x / u)) * u
            in if 2 ^ 1024 \<le> \<bar>r\<bar> then Infinity (0 < x) else Num r))"

text \<open>\<^verbatim>\<open>a + b\<close> on numbers.\<close>

fun number_add :: "number \<Rightarrow> number \<Rightarrow> number" where
  "number_add NaN b = NaN"
| "number_add a NaN = NaN"
| "number_add (Infinity s) (Infinity t) = (if s = t then Infinity s else NaN)"
| "number_add (Infinity s) (Num y) = Infinity s"
| "number_add (Num x) (Infinity t) = Infinity t"
| "number_add (Num x) (Num y) = to_double (x + y)"

text \<open>\<^verbatim>\<open>a / length\<close> for a number and the length of a non-empty array.\<close>

fun number_div :: "number \<Rightarrow> nat \<Rightarrow> number" where
  "number_div NaN n = NaN"
| "number_div (Infinity s) n = Infinity s"
| "number_div (Num x) n = to_double (x / real n)"

text \<open>
  The part of a component object that the module reads and writes: the parent link,
  \<^verbatim>\<open>options.id\<close> (\<open>None\<close> for null or undefined), the status, the value of the
  \<^verbatim>\<open>progress\<close> getter and the reference held in \<^verbatim>\<open>options.parameters\<close>.
\<close>

record comp =
  parent :: "addr option"
  opt_id :: "string option"
  status :: status
  progress :: number
  parameters :: addr

record world =
  comps :: "addr \<Rightarrow> comp"
  bags :: "addr \<Rightarrow> bag"
  fresh :: addr
  trace :: "effect list"

definition emit :: "effect \<Rightarrow> world \<Rightarrow> world" where
  "emit e w = w\<lparr>trace := trace w @ [e]\<rparr>"

subsection \<open>Promises\<close>

text \<open>
  A promise either never settles or settles at a logical time, fulfilled with a value or
  rejected with an error. \<^verbatim>\<open>Promise.all\<close> rejects with the earliest rejection (the
  first in list order among equal times); without a rejection it is fulfilled once every
  member is, with the list of their values. \<^verbatim>\<open>Promise.all([])\<close> is fulfilled at once.
\<close>

datatype 'a outcome = Fulfilled 'a | Rejected error

datatype 'a promise = Never | At nat "'a outcome"

fun first_rejection :: "'a promise list \<Rightarrow> (nat \<times> error) option" where
  "first_rejection [] = None"
| "first_rejection (At t (Rejected e) # ps) =
     (case first_rejection ps of
        None \<Rightarrow> Some (t, e)
      | Some (t', e') \<Rightarrow> if t \<le> t' then Some (t, e) else Some (t', e'))"
| "first_rejection (p # ps) = first_rejection ps"

fun all_fulfilled :: "'a promise list \<Rightarrow> (nat \<times> 'a list) option" where
  "all_fulfilled [] = Some (0, [])"
| "all_fulfilled (At t (Fulfilled v) # ps) =
     (case all_fulfilled ps of
        None \<Rightarrow> None
      | Some (t', vs) \<Rightarrow> Some (max t t', v # vs))"
| "all_fulfilled (p # ps) = None"

definition Promise_all :: "'a promise list \<Rightarrow> 'a list promise" where
  "Promise_all ps =
     (case first_rejection ps of
        Some (t, e) \<Rightarrow> At t (Rejected e)
      | None \<Rightarrow>
          (case all_fulfilled ps of
             Some (t, vs) \<Rightarrow> At t (Fulfilled vs)
           | None \<Rightarrow> Never))"

text \<open>
  \<^verbatim>\<open>await p\<close> as the last statement of an \<^verbatim>\<open>async\<close> function without a return
  value: the function's promise settles when \<open>p\<close> does, with \<^verbatim>\<open>undefined\<close> or with
  the error of \<open>p\<close>.
\<close>

fun await_unit :: "'a promise \<Rightarrow> unit promise" where
  "await_unit Never = Never"
| "await_unit (At t (Fulfilled v)) = At t (Fulfilled ())"
| "await_unit (At t (Rejected e)) = At t (Rejected e)"

subsection \<open>External collaborators\<close>

text \<open>
  What the module consumes and does not define: the promise that a child's
  \<^verbatim>\<open>prepare\<close> returns, and the two operations of the random number service.
\<close>

record env =
  prepare_of :: "addr \<Rightarrow> unit promise"
  shuffle_of :: "addr list \<Rightarrow> addr list"
  sample_of :: "bag list \<Rightarrow> jsval \<Rightarrow> jsval \<Rightarrow> error + bag list"

section \<open>prepareNested\<close>

text \<open>The ten digits; only ever asked for \<open>d < 10\<close>.\<close>

definition digit_char :: "nat \<Rightarrow> char" where
  "digit_char d = ''0123456789'' ! d"

text \<open>\<^verbatim>\<open>String(i)\<close> for an array index: its decimal numeral.\<close>

fun string_of_nat :: "nat \<Rightarrow> string" where
  "string_of_nat n =
     (if n < 10 then [digit_char n]
      else string_of_nat (n div 10) @ [digit_char (n mod 10)])"

declare string_of_nat.simps [simp del]

text \<open>\<^verbatim>\<open>[a, i].join('_')\<close> for a string and an index.\<close>

definition join_id :: "string \<Rightarrow> nat \<Rightarrow> string" where
  "join_id a i = a @ ''_'' @ string_of_nat i"

text \<open>The identifier of the child at index \<open>i\<close>, given \<^verbatim>\<open>parent.options.id\<close>.\<close>

definition child_id :: "string option \<Rightarrow> nat \<Rightarrow> string" where
  "child_id pid i = (case pid of None \<Rightarrow> string_of_nat i | Some s \<Rightarrow> join_id s i)"

definition set_parent :: "addr \<Rightarrow> addr \<Rightarrow> world \<Rightarrow> world" where
  "set_parent c p w =
     emit (SetParent c p) (w\<lparr>comps := (comps w)(c := (comps w c)\<lparr>parent := Some p\<rparr>)\<rparr>)"

definition set_id :: "addr \<Rightarrow> string \<Rightarrow> world \<Rightarrow> world" where
  "set_id c s w =
     emit (SetId c s) (w\<lparr>comps := (comps w)(c := (comps w c)\<lparr>opt_id := Some s\<rparr>)\<rparr>)"

text \<open>\<^verbatim>\<open>nested.forEach(c => (c.parent = parent))\<close>\<close>

fun link_parents :: "addr list \<Rightarrow> addr \<Rightarrow> world \<Rightarrow> world" where
  "link_parents [] p w = w"
| "link_parents (c # cs) p w = link_parents cs p (set_parent c p w)"

text \<open>
  The second \<^verbatim>\<open>forEach\<close>, from index \<open>i\<close> on. The parent's id is read again in every
  round, from the store as it is then.
\<close>

fun assign_ids :: "addr list \<Rightarrow> nat \<Rightarrow> addr \<Rightarrow> world \<Rightarrow> world" where
  "assign_ids [] i p w = w"
| "assign_ids (c # cs) i p w =
     assign_ids cs (Suc i) p
       (case opt_id (comps w p) of
          None \<Rightarrow> set_id c (string_of_nat i) w
        | Some pid \<Rightarrow> set_id c (join_id pid i) w)"

text \<open>\<^verbatim>\<open>nested.map(c => c.prepare(false))\<close>: the calls, and the promises they return.\<close>

fun prepare_children :: "env \<Rightarrow> addr list \<Rightarrow> world \<Rightarrow> unit promise list \<times> world" where
  "prepare_children ev [] w = ([], w)"
| "prepare_children ev (c # cs) w =
     (let (ps, w') = prepare_children ev cs (emit (CallPrepare c False) w)
      in (prepare_of ev c # ps, w'))"

definition prepareNested :: "env \<Rightarrow> addr list \<Rightarrow> addr \<Rightarrow> world \<Rightarrow> unit list promise \<times> world" where
  "prepareNested ev nested p w =
     (let w1 = link_parents nested p w;
          w2 = assign_ids nested 0 p w1;
          (ps, w3) = prepare_children ev nested w2
      in (Promise_all ps, w3))"


section \<open>Sequence\<close>

text \<open>
  Modelled from the spec: \<^verbatim>\<open>Component.prototype.end\<close> of the core module, which is
  not among the sources. A task unit that ends reaches the status done; the call is logged
  with its reason and timestamp. What a child does beyond that in its own end hook is the
  child's business and is not described here.
\<close>

definition Component_end :: "addr \<Rightarrow> jsval \<Rightarrow> jsval \<Rightarrow> world \<Rightarrow> world" where
  "Component_end a reason ts w =
     emit (CallEnd a reason ts) (w\<lparr>comps := (comps w)(a := (comps w a)\<lparr>status := Done\<rparr>)\<rparr>)"

text \<open>
  Modelled from the spec: what the store shows of a child that has run to completion of
  its own accord. Its status is done, and it contributes the progress 1.
\<close>

definition run_to_completion :: "addr \<Rightarrow> world \<Rightarrow> world" where
  "run_to_completion c w =
     w\<lparr>comps := (comps w)(c := (comps w c)\<lparr>status := Done, progress := Num 1\<rparr>)\<rparr>"

text \<open>
  Both containers keep the list of their children in \<^verbatim>\<open>options.content\<close>; \<open>self\<close> is
  the address of the container's own component object in the store.
\<close>

record container =
  self :: addr
  content :: "addr list"

text \<open>
  A sequence adds the shuffle option and its internals. The iterator made by
  \<^verbatim>\<open>content.entries()\<close> is the array it runs over and the next index; it is
  undefined (\<open>None\<close>) until \<^verbatim>\<open>onPrepare\<close> has run, and so is the stepper.
\<close>

record sequence = container +
  shuffle :: bool
  currentComponent :: "addr option"
  currentPosition :: "nat option"
  iterator :: "(addr list \<times> nat) option"
  stepper :: "handler option"

text \<open>The constructor: defaults, overridden by the options that are given.\<close>

definition new_Sequence :: "addr \<Rightarrow> addr list option \<Rightarrow> bool option \<Rightarrow> sequence" where
  "new_Sequence a opt_content opt_shuffle =
     \<lparr>self = a,
      content = (case opt_content of None \<Rightarrow> [] | Some cs \<Rightarrow> cs),
      shuffle = (case opt_shuffle of None \<Rightarrow> False | Some b \<Rightarrow> b),
      currentComponent = None, currentPosition = None, iterator = None, stepper = None\<rparr>"

text \<open>What a lifecycle method hands back to its caller, and what awaiting that gives.\<close>

datatype returned = ReturnsUndefined | ReturnsPromise "unit promise"

fun awaited :: "returned \<Rightarrow> unit promise" where
  "awaited ReturnsUndefined = At 0 (Fulfilled ())"
| "awaited (ReturnsPromise p) = p"

definition Sequence_onPrepare ::
  "env \<Rightarrow> 'a sequence_scheme \<Rightarrow> world \<Rightarrow> returned \<times> 'a sequence_scheme \<times> world" where
  "Sequence_onPrepare ev s w =
     (let (cs, w1) =
            (if shuffle s then (shuffle_of ev (content s), emit (CallShuffle (content s)) w)
             else (content s, w));
          s1 = s\<lparr>content := cs, iterator := Some (cs, 0), stepper := Some (Stepper (self s))\<rparr>;
          (p, w2) = prepareNested ev cs (self s) w1
      in (ReturnsPromise (await_unit p), s1, w2))"

definition Sequence_onEnd :: "'a sequence_scheme \<Rightarrow> world \<Rightarrow> world" where
  "Sequence_onEnd s w =
     (case currentComponent s of
        None \<Rightarrow> w
      | Some c \<Rightarrow>
          if status (comps w c) \<noteq> Done
          then Component_end c (JStr ''abort by sequence'') JUndefined
                 (emit (CallOff c ''after:end'' (stepper s)) w)
          else w)"

text \<open>
  \<^verbatim>\<open>this.end(reason, timestamp)\<close> on a sequence: the inherited method (see
  \<open>Component_end\<close>), which runs the \<^verbatim>\<open>onEnd\<close> hook of the class.
\<close>

definition Sequence_end :: "'a sequence_scheme \<Rightarrow> jsval \<Rightarrow> jsval \<Rightarrow> world \<Rightarrow> world" where
  "Sequence_end s reason ts w = Sequence_onEnd s (Component_end (self s) reason ts w)"

text \<open>The futures that \<^verbatim>\<open>run\<close> and \<^verbatim>\<open>end\<close> of a component return, by the call that made them.\<close>

datatype future = RunOf addr jsval jsval | EndOf addr jsval jsval

definition sequence_ended_message :: string where
  "sequence_ended_message = ''Sequence ended, can'' @ [CHR 0x27] @ ''t take any more steps''"

definition Sequence_step ::
  "'a sequence_scheme \<Rightarrow> jsval \<Rightarrow> jsval \<Rightarrow> world \<Rightarrow> error + (future \<times> 'a sequence_scheme \<times> world)" where
  "Sequence_step s frameTimeStamp frameSynced w =
     (if status (comps w (self s)) = Done then Inl (Error sequence_ended_message)
      else
        (case iterator s of
           None \<Rightarrow> Inl (TypeError ''iterator is undefined'')
         | Some (arr, i) \<Rightarrow>
             if length arr \<le> i
             then Inr (EndOf (self s) (JStr ''completion'') frameTimeStamp, s,
                       Sequence_end s (JStr ''completion'') frameTimeStamp w)
             else
               (let c = arr ! i;
                    s1 = s\<lparr>iterator := Some (arr, Suc i),
                           currentPosition := Some i, currentComponent := Some c\<rparr>;
                    w1 = emit (CallOn c ''after:end'' (stepper s1)) w;
                    w2 = emit (CallRun c frameTimeStamp frameSynced) w1
                in Inr (RunOf c frameTimeStamp frameSynced, s1, w2))))"

definition Sequence_onRun ::
  "'a sequence_scheme \<Rightarrow> jsval \<Rightarrow> world \<Rightarrow> error + (future \<times> 'a sequence_scheme \<times> world)" where
  "Sequence_onRun s frameTimeStamp w = Sequence_step s frameTimeStamp JUndefined w"

text \<open>
  \<^verbatim>\<open>mean\<close> of lodash on an array of numbers: \<^verbatim>\<open>NaN\<close> for an empty array;
  otherwise the sum, which starts from the first element and adds the others from left to
  right, divided by the length.
\<close>

definition mean :: "number list \<Rightarrow> number" where
  "mean ns =
     (case ns of
        [] \<Rightarrow> NaN
      | a # rest \<Rightarrow> number_div (foldl number_add a rest) (length ns))"

definition Sequence_progress :: "'a sequence_scheme \<Rightarrow> world \<Rightarrow> number" where
  "Sequence_progress s w =
     (if status (comps w (self s)) = Done then Num 1
      else mean (map (\<lambda>c. progress (comps w c)) (content s)))"

section \<open>Loop\<close>

record sample_spec =
  sample_n :: jsval
  sample_replace :: jsval

text \<open>
  The template is a component (\<^verbatim>\<open>instanceof Component\<close>), a function
  (\<^verbatim>\<open>isFunction\<close>) or anything else. A factory may build its component, so it runs in
  the store and hands back the address of what it made.
\<close>

datatype template =
    Prototype addr
  | Factory "bag \<Rightarrow> nat \<Rightarrow> addr \<Rightarrow> world \<Rightarrow> addr \<times> world"
  | NoTemplate

record loop = sequence +
  template :: template
  templateParameters :: "bag list"
  sample :: "sample_spec option"

definition new_Loop ::
  "addr \<Rightarrow> addr list option \<Rightarrow> bool option \<Rightarrow> template option \<Rightarrow> bag list option \<Rightarrow>
   sample_spec option option \<Rightarrow> loop" where
  "new_Loop a opt_content opt_shuffle opt_template opt_parameters opt_sample =
     sequence.extend (new_Sequence a opt_content opt_shuffle)
       (loop.fields
          (case opt_template of None \<Rightarrow> NoTemplate | Some t \<Rightarrow> t)
          (case opt_parameters of None \<Rightarrow> [] | Some ps \<Rightarrow> ps)
          (case opt_sample of
             None \<Rightarrow> Some \<lparr>sample_n = JUndefined, sample_replace = JBool False\<rparr>
           | Some sp \<Rightarrow> sp))"

text \<open>
  Modelled from the spec: \<^verbatim>\<open>Component.prototype.clone\<close> of the core module, which is
  not among the sources. The spec calls the result an independent copy: a new object with
  the fields of the original and a parameter bag of its own, holding the same entries.
  For a prototype whose parameters are primitive values that is all there is to copy; what
  the core does with parameters that are objects themselves is not described, and the
  properties of clones below are stated for prototypes with primitive parameters.
\<close>

definition Component_clone :: "addr \<Rightarrow> world \<Rightarrow> addr \<times> world" where
  "Component_clone t w =
     (let a = fresh w; b = Suc (fresh w)
      in (a, emit (CallClone t)
               (w\<lparr>comps := (comps w)(a := (comps w t)\<lparr>parameters := b\<rparr>),
                  bags := (bags w)(b := bags w (parameters (comps w t))),
                  fresh := Suc (Suc (fresh w))\<rparr>)))"

text \<open>
  The object literal \<^verbatim>\<open>{ ...c.options.parameters, ...p }\<close> makes a new bag, in which
  the keys of \<open>p\<close> win; the clone's options then point to it. The spread copies the
  values as they are: a value of \<open>p\<close> that is an object goes into the new bag as the
  same reference.
\<close>

definition extend_parameters :: "addr \<Rightarrow> bag \<Rightarrow> world \<Rightarrow> world" where
  "extend_parameters c p w =
     (let b = fresh w
      in w\<lparr>bags := (bags w)(b := bags w (parameters (comps w c)) ++ p),
           comps := (comps w)(c := (comps w c)\<lparr>parameters := b\<rparr>),
           fresh := Suc (fresh w)\<rparr>)"

text \<open>\<^verbatim>\<open>templateParameters.map((p) => { const c = template.clone(); ...; return c })\<close>\<close>

fun clone_each :: "addr \<Rightarrow> bag list \<Rightarrow> world \<Rightarrow> addr list \<times> world" where
  "clone_each t [] w = ([], w)"
| "clone_each t (p # ps) w =
     (let (c, w1) = Component_clone t w;
          w2 = extend_parameters c p w1;
          (cs, w3) = clone_each t ps w2
      in (c # cs, w3))"

text \<open>One round of that map, as a change of the store: the clone, then the new bag.\<close>

definition clone_step :: "addr \<Rightarrow> bag \<Rightarrow> world \<Rightarrow> world" where
  "clone_step t p w = extend_parameters (fst (Component_clone t w)) p (snd (Component_clone t w))"



text \<open>\<^verbatim>\<open>templateParameters.map((p, i) => template(p, i, this))\<close>, from index \<open>i\<close> on.\<close>

fun call_factory ::
  "(bag \<Rightarrow> nat \<Rightarrow> addr \<Rightarrow> world \<Rightarrow> addr \<times> world) \<Rightarrow> addr \<Rightarrow> nat \<Rightarrow> bag list \<Rightarrow> world \<Rightarrow>
   addr list \<times> world" where
  "call_factory f this i [] w = ([], w)"
| "call_factory f this i (p # ps) w =
     (let (c, w1) = f p i this w;
          (cs, w2) = call_factory f this (Suc i) ps w1
      in (c # cs, w2))"

text \<open>
  The first statement of \<^verbatim>\<open>Loop.onPrepare\<close>: the parameters to use. Reading
  \<^verbatim>\<open>sample.n\<close> of a missing \<^verbatim>\<open>sample\<close> option throws; so may the random service.
\<close>

definition effective_parameters :: "env \<Rightarrow> loop \<Rightarrow> world \<Rightarrow> error + (bag list \<times> world)" where
  "effective_parameters ev l w =
     (case sample l of
        None \<Rightarrow> Inl (TypeError ''sample is undefined'')
      | Some sp \<Rightarrow>
          if truthy (sample_n sp)
          then (case sample_of ev (templateParameters l) (sample_n sp) (sample_replace sp) of
                  Inl e \<Rightarrow> Inl e
                | Inr ps \<Rightarrow>
                    Inr (ps, emit (CallSample (templateParameters l) (sample_n sp)
                                     (sample_replace sp)) w))
          else Inr (templateParameters l, w))"

definition missing_template_message :: string where
  "missing_template_message = ''Missing or invalid template in loop, no content generated''"

text \<open>The second statement: the content, by the kind of template.\<close>

definition generate_content :: "loop \<Rightarrow> bag list \<Rightarrow> world \<Rightarrow> loop \<times> world" where
  "generate_content l ps w =
     (case template l of
        Prototype t \<Rightarrow> (let (cs, w1) = clone_each t ps w in (l\<lparr>content := cs\<rparr>, w1))
      | Factory f \<Rightarrow> (let (cs, w1) = call_factory f (self l) 0 ps w in (l\<lparr>content := cs\<rparr>, w1))
      | NoTemplate \<Rightarrow> (l, emit (ConsoleWarn missing_template_message) w))"

definition Loop_onPrepare :: "env \<Rightarrow> loop \<Rightarrow> world \<Rightarrow> error + (returned \<times> loop \<times> world)" where
  "Loop_onPrepare ev l w =
     (case effective_parameters ev l w of
        Inl e \<Rightarrow> Inl e
      | Inr (ps, w1) \<Rightarrow>
          (let (l1, w2) = generate_content l ps w1
           in Inr (Sequence_onPrepare ev l1 w2)))"

text \<open>
  The reading of "the list of the calls, in that order": the computations of a list run
  one after the other, each in the store that the one before it has left, and their
  results are collected in the same order. It is what the content of a loop with a factory
  is compared with.
\<close>

fun in_order :: "(world \<Rightarrow> 'a \<times> world) list \<Rightarrow> world \<Rightarrow> 'a list \<times> world" where
  "in_order [] w = ([], w)"
| "in_order (m # ms) w =
     (case m w of (x, w1) \<Rightarrow> (case in_order ms w1 of (xs, w2) \<Rightarrow> (x # xs, w2)))"

section \<open>Parallel\<close>

text \<open>
  \<^verbatim>\<open>options.mode\<close> names the combinator of \<^verbatim>\<open>Promise\<close> that joins the children's
  end events: \<^verbatim>\<open>'race'\<close> (the default; the first to end) or \<^verbatim>\<open>'all'\<close>.
\<close>

datatype join_mode = ModeRace | ModeAll

text \<open>
  \<open>waiting\<close> lists the children whose \<^verbatim>\<open>waitFor('end')\<close> promise, made in
  \<^verbatim>\<open>onRun\<close>, is still pending; \<open>armed\<close> says that the joined promise exists and has
  not settled, so that its \<^verbatim>\<open>then\<close> callback has not run.
\<close>

record parallel = container +
  mode :: join_mode
  waiting :: "addr list"
  armed :: bool

definition new_Parallel :: "addr \<Rightarrow> addr list option \<Rightarrow> join_mode option \<Rightarrow> parallel" where
  "new_Parallel a opt_content opt_mode =
     \<lparr>self = a,
      content = (case opt_content of None \<Rightarrow> [] | Some cs \<Rightarrow> cs),
      mode = (case opt_mode of None \<Rightarrow> ModeRace | Some m \<Rightarrow> m),
      waiting = [], armed = False\<rparr>"

text \<open>The method has no \<^verbatim>\<open>return\<close>: the promise of \<^verbatim>\<open>prepareNested\<close> is dropped.\<close>

definition Parallel_onPrepare :: "env \<Rightarrow> parallel \<Rightarrow> world \<Rightarrow> returned \<times> world" where
  "Parallel_onPrepare ev p w =
     (let (pr, w1) = prepareNested ev (content p) (self p) w
      in (ReturnsUndefined, w1))"

text \<open>\<^verbatim>\<open>content.forEach(c => { if (c.status < status.done) c.end('abort by parallel') })\<close>\<close>

fun abort_running :: "addr list \<Rightarrow> world \<Rightarrow> world" where
  "abort_running [] w = w"
| "abort_running (c # cs) w =
     abort_running cs
       (if status_rank (status (comps w c)) < status_rank Done
        then Component_end c (JStr ''abort by parallel'') JUndefined w
        else w)"

definition Parallel_onEnd :: "parallel \<Rightarrow> world \<Rightarrow> world" where
  "Parallel_onEnd p w = abort_running (content p) w"

text \<open>\<^verbatim>\<open>this.end()\<close> on a parallel: the inherited method, which runs \<^verbatim>\<open>onEnd\<close>.\<close>

definition Parallel_end :: "parallel \<Rightarrow> world \<Rightarrow> world" where
  "Parallel_end p w = Parallel_onEnd p (Component_end (self p) JUndefined JUndefined w)"

text \<open>
  Whether the joined promise has settled. \<^verbatim>\<open>Promise.all\<close> needs every member;
  \<^verbatim>\<open>Promise.race\<close> needs one, and never settles on an empty array.
\<close>

fun joined_settled :: "join_mode \<Rightarrow> addr list \<Rightarrow> addr list \<Rightarrow> bool" where
  "joined_settled ModeAll cs ws = (ws = [])"
| "joined_settled ModeRace cs ws = (\<exists>c \<in> set cs. c \<notin> set ws)"

text \<open>
  \<^verbatim>\<open>.then(() => this.end())\<close>: the callback runs once, in a promise job that comes
  after the joined promise has settled. \<open>watcher\<close> is that job: it does nothing while
  the joined promise is pending, and nothing once the callback has run.
\<close>

definition watcher :: "parallel \<Rightarrow> world \<Rightarrow> parallel \<times> world" where
  "watcher p w =
     (if armed p \<and> joined_settled (mode p) (content p) (waiting p)
      then (p\<lparr>armed := False\<rparr>, Parallel_end p w)
      else (p, w))"

text \<open>
  \<^verbatim>\<open>onRun\<close>: one \<^verbatim>\<open>waitFor('end')\<close> per child, the joined promise with its callback,
  then one \<^verbatim>\<open>run\<close> per child; the futures of the runs are returned (joined by
  \<^verbatim>\<open>Promise.all\<close>). No promise job runs before the method has returned.
\<close>

definition Parallel_onRun :: "parallel \<Rightarrow> jsval \<Rightarrow> world \<Rightarrow> future list \<times> parallel \<times> world" where
  "Parallel_onRun p frameTimeStamp w =
     (let w1 = foldl (\<lambda>v c. emit (CallWaitFor c ''end'') v) w (content p);
          p1 = p\<lparr>waiting := content p, armed := True\<rparr>;
          w2 = foldl (\<lambda>v c. emit (CallRun c frameTimeStamp JUndefined) v) w1 (content p)
      in (map (\<lambda>c. RunOf c frameTimeStamp JUndefined) (content p), p1, w2))"

text \<open>
  What happens to a running parallel, one step at a time: a child ends of its own accord,
  or the promise jobs that are due get to run. Any number of children may end before the
  jobs run, in the same turn of the event loop or between two jobs.
\<close>

datatype step = ChildEnds addr | PromiseJobs

text \<open>
  A child ends of its own accord (see \<open>run_to_completion\<close>) and emits its end event,
  which resolves the promises waiting for it. Nothing else happens at the event.
\<close>

definition child_ended :: "addr \<Rightarrow> parallel \<times> world \<Rightarrow> parallel \<times> world" where
  "child_ended c pw =
     (case pw of (p, w) \<Rightarrow>
        (p\<lparr>waiting := removeAll c (waiting p)\<rparr>, run_to_completion c w))"

definition promise_jobs :: "parallel \<times> world \<Rightarrow> parallel \<times> world" where
  "promise_jobs pw = (case pw of (p, w) \<Rightarrow> watcher p w)"

fun take_step :: "step \<Rightarrow> parallel \<times> world \<Rightarrow> parallel \<times> world" where
  "take_step (ChildEnds c) pw = child_ended c pw"
| "take_step PromiseJobs pw = promise_jobs pw"

definition run_steps :: "step list \<Rightarrow> parallel \<times> world \<Rightarrow> parallel \<times> world" where
  "run_steps ss pw = foldl (\<lambda>v s. take_step s v) pw ss"

text \<open>The children whose end event has fired during the steps, in that order.\<close>

fun ended :: "step list \<Rightarrow> addr list" where
  "ended [] = []"
| "ended (ChildEnds c # ss) = c # ended ss"
| "ended (PromiseJobs # ss) = ended ss"

text \<open>
  The join policies in the words of the spec, for the children \<open>cs\<close> and the end events
  \<open>es\<close> that have fired: under all-finish every child's end event has fired, under
  first-finish the end event of some child has.
\<close>

fun fired_enough :: "join_mode \<Rightarrow> addr list \<Rightarrow> addr list \<Rightarrow> bool" where
  "fired_enough ModeAll cs es = (set cs \<subseteq> set es)"
| "fired_enough ModeRace cs es = (\<exists>c\<in>set cs. c \<in> set es)"

definition Parallel_progress :: "parallel \<Rightarrow> world \<Rightarrow> number" where
  "Parallel_progress p w =
     (if status (comps w (self p)) = Done then Num 1
      else mean (map (\<lambda>c. progress (comps w c)) (content p)))"

section \<open>Concrete scenarios\<close>

text \<open>A store of untouched components, and collaborators that never fail.\<close>

definition blank :: comp where
  "blank = \<lparr>parent = None, opt_id = None, status = Initialized, progress = Num 0, parameters = 0\<rparr>"

definition empty_world :: world where
  "empty_world = \<lparr>comps = (\<lambda>a. blank), bags = (\<lambda>a. Map.empty), fresh = 100, trace = []\<rparr>"

text \<open>The same store with a running container at address 0.\<close>

definition running_world :: world where
  "running_world = empty_world\<lparr>comps := (comps empty_world)(0 := blank\<lparr>status := Running\<rparr>)\<rparr>"

definition quiet_env :: env where
  "quiet_env = \<lparr>prepare_of = (\<lambda>a. At 1 (Fulfilled ())), shuffle_of = rev,
     sample_of = (\<lambda>ps n r. Inr (rev ps))\<rparr>"

text \<open>
  A prepared sequence at address 0 over the children 1 and 2, with its cursor at index
  \<open>i\<close>; the child before the cursor, if any, is the current one.
\<close>

definition cursor_at :: "nat \<Rightarrow> sequence" where
  "cursor_at i =
     \<lparr>self = 0, content = [1, 2], shuffle = False,
      currentComponent = (if i = 0 then None else Some i),
      currentPosition = (if i = 0 then None else Some (i - 1)),
      iterator = Some ([1, 2], i), stepper = Some (Stepper 0)\<rparr>"

text \<open>
  One step of a sequence, keeping the state as it is when the step fails; and the run in
  which the sequence at address 0 starts its first child, that child runs to completion,
  the stepper starts the second child, and the second child runs to completion too. The
  stepper has not been called for the second child's end yet.
\<close>

definition after_step :: "sequence \<times> world \<Rightarrow> sequence \<times> world" where
  "after_step sw =
     (case Sequence_step (fst sw) JUndefined JUndefined (snd sw) of
        Inl e \<Rightarrow> sw
      | Inr (fu, s, w) \<Rightarrow> (s, w))"

definition both_children_finished :: "sequence \<times> world" where
  "both_children_finished =
     (let (s1, w1) = after_step (cursor_at 0, running_world);
          (s2, w2) = after_step (s1, run_to_completion 1 w1)
      in (s2, run_to_completion 2 w2))"

text \<open>
  A factory that builds a new component whose parameter bag holds the record it was given,
  the index and the address of the loop; and a loop at address 0 that uses it on three
  records, with no sampling configured.
\<close>

definition make_child :: "bag \<Rightarrow> nat \<Rightarrow> addr \<Rightarrow> world \<Rightarrow> addr \<times> world" where
  "make_child p i this w =
     (fresh w,
      w\<lparr>comps := (comps w)(fresh w := blank\<lparr>parameters := fresh w\<rparr>),
        bags := (bags w)(fresh w := p(''index'' \<mapsto> JNum (real i), ''loop'' \<mapsto> JNum (real this))),
        fresh := Suc (fresh w)\<rparr>)"

definition three_records :: "bag list" where
  "three_records = [[''a'' \<mapsto> JNum 1], [''a'' \<mapsto> JNum 2], [''a'' \<mapsto> JNum 3]]"

definition factory_loop :: loop where
  "factory_loop = new_Loop 0 None None (Some (Factory make_child)) (Some three_records) None"

text \<open>A loop at address 0 that was given parameters and no template.\<close>

definition untemplated_loop :: loop where
  "untemplated_loop = new_Loop 0 None None None (Some three_records) None"



text \<open>A parallel at address 0 over the children 1, 2 and 3, with the given mode.\<close>

definition three_children :: "join_mode \<Rightarrow> parallel" where
  "three_children m = new_Parallel 0 (Some [1, 2, 3]) (Some m)"

text \<open>
  Collaborators among which the \<^verbatim>\<open>prepare\<close> of child 2 is rejected at time 3, while
  every other child's is fulfilled at time 5.
\<close>

definition failing_env :: env where
  "failing_env =
     quiet_env\<lparr>prepare_of :=
       (\<lambda>a. if a = 2 then At 3 (Rejected (Error ''boom'')) else At 5 (Fulfilled ()))\<rparr>"



section \<open>Properties of prepareNested\<close>

lemma trace_emit [simp]: "trace (emit e w) = trace w @ [e]"
  and comps_emit [simp]: "comps (emit e w) = comps w"
  and bags_emit [simp]: "bags (emit e w) = bags w"
  and fresh_emit [simp]: "fresh (emit e w) = fresh w"
  by (simp_all add: emit_def)

lemma link_parents_comps:
  "comps (link_parents cs p w) =
     (\<lambda>a. if a \<in> set cs then (comps w a)\<lparr>parent := Some p\<rparr> else comps w a)"
  by (induction cs arbitrary: w) (auto simp: set_parent_def fun_eq_iff)

lemma link_parents_trace:
  "trace (link_parents cs p w) = trace w @ map (\<lambda>c. SetParent c p) cs"
  by (induction cs arbitrary: w) (auto simp: set_parent_def)

lemma child_id_unfold:
  "child_id pid i =
     (case pid of None \<Rightarrow> string_of_nat i | Some s \<Rightarrow> s @ ''_'' @ string_of_nat i)"
  by (simp add: child_id_def join_id_def split: option.splits)

lemma assign_ids_other:
  "a \<notin> set cs \<Longrightarrow> comps (assign_ids cs i p w) a = comps w a"
  by (induction cs arbitrary: w i) (auto simp: set_id_def split: option.splits)

lemma assign_ids_parent:
  "parent (comps (assign_ids cs i p w) a) = parent (comps w a)"
  by (induction cs arbitrary: w i) (auto simp: set_id_def split: option.splits)

lemma assign_ids_nth:
  "distinct cs \<Longrightarrow> p \<notin> set cs \<Longrightarrow> k < length cs \<Longrightarrow>
   opt_id (comps (assign_ids cs i p w) (cs ! k)) = Some (child_id (opt_id (comps w p)) (i + k))"
proof (induction cs arbitrary: w i k)
  case Nil
  then show ?case by simp
next
  case (Cons c cs)
  show ?case
  proof (cases k)
    case 0
    with Cons.prems show ?thesis
      by (auto simp: assign_ids_other set_id_def child_id_def join_id_def split: option.splits)
  next
    case (Suc j)
    with Cons.prems Cons.IH [of j] show ?thesis
      by (auto simp: set_id_def child_id_def join_id_def split: option.splits)
  qed
qed

lemma assign_ids_trace:
  "p \<notin> set cs \<Longrightarrow>
   trace (assign_ids cs i p w) =
     trace w @ map (\<lambda>k. SetId (cs ! k) (child_id (opt_id (comps w p)) (i + k))) [0..<length cs]"
proof (induction cs arbitrary: w i)
  case Nil
  then show ?case by simp
next
  case (Cons c cs)
  have "[0..<length (c # cs)] = 0 # map Suc [0..<length cs]"
    by (simp add: upt_conv_Cons map_Suc_upt del: upt_Suc)
  with Cons show ?case
    by (auto simp: set_id_def child_id_def join_id_def comp_def split: option.splits)
qed

lemma prepare_children_snd:
  "comps (snd (prepare_children ev cs w)) = comps w \<and>
   trace (snd (prepare_children ev cs w)) = trace w @ map (\<lambda>c. CallPrepare c False) cs"
  by (induction cs arbitrary: w) (simp_all add: split_def Let_def)

lemma prepare_children_fst:
  "fst (prepare_children ev cs w) = map (prepare_of ev) cs"
  by (induction cs arbitrary: w) (simp_all add: split_def Let_def)


text \<open>
  Claim C5. A call of \<^verbatim>\<open>prepareNested\<close> on the children \<open>nested\<close> and the parent
  \<open>par\<close> sets every child's parent link to \<open>par\<close> and gives the child at index \<open>i\<close>
  the identifier \<open>i\<close> when the parent has none, and the parent's identifier, an
  underscore and \<open>i\<close> when it has one. The effect log shows one write of the parent link
  and one write of the identifier per child, in list order, followed by one call of
  \<^verbatim>\<open>prepare(false)\<close> per child. The children are distinct objects and the parent is
  not among them.
\<close>

theorem prepareNested_links_and_ids:
  assumes "distinct nested" and "par \<notin> set nested"
  shows "(\<forall>i<length nested.
            parent (comps (snd (prepareNested ev nested par w)) (nested ! i)) = Some par \<and>
            opt_id (comps (snd (prepareNested ev nested par w)) (nested ! i)) =
              Some (case opt_id (comps w par) of
                      None \<Rightarrow> string_of_nat i
                    | Some pid \<Rightarrow> pid @ ''_'' @ string_of_nat i)) \<and>
         trace (snd (prepareNested ev nested par w)) =
           trace w @ map (\<lambda>c. SetParent c par) nested @
           map (\<lambda>i. SetId (nested ! i)
                      (case opt_id (comps w par) of
                         None \<Rightarrow> string_of_nat i
                       | Some pid \<Rightarrow> pid @ ''_'' @ string_of_nat i)) [0..<length nested] @
           map (\<lambda>c. CallPrepare c False) nested"
proof -
  let ?w1 = "link_parents nested par w"
  let ?w2 = "assign_ids nested 0 par ?w1"
  have snd_eq: "snd (prepareNested ev nested par w) = snd (prepare_children ev nested ?w2)"
    by (simp add: prepareNested_def Let_def split_def)
  have pid: "opt_id (comps ?w1 par) = opt_id (comps w par)"
    using assms(2) by (simp add: link_parents_comps)
  have ids: "\<forall>i<length nested. opt_id (comps ?w2 (nested ! i)) =
               Some (child_id (opt_id (comps w par)) i)"
    using assign_ids_nth [OF assms, of _ 0 ?w1] pid by simp
  have parents: "\<forall>i<length nested. parent (comps ?w2 (nested ! i)) = Some par"
    by (simp add: assign_ids_parent link_parents_comps)
  have tr: "trace ?w2 = trace w @ map (\<lambda>c. SetParent c par) nested @
              map (\<lambda>i. SetId (nested ! i) (child_id (opt_id (comps w par)) i)) [0..<length nested]"
    using assign_ids_trace [OF assms(2), of 0 ?w1] pid by (simp add: link_parents_trace)
  show ?thesis
    unfolding snd_eq using ids parents tr
    by (simp add: prepare_children_snd child_id_unfold)
qed

theorem prepareNested_links_and_ids_witness:
  "distinct [1, 2, 3 :: nat] \<and> (0 :: nat) \<notin> set [1, 2, 3] \<and>
   map (\<lambda>c. opt_id (comps (snd (prepareNested quiet_env [1, 2, 3] 0 empty_world)) c)) [1, 2, 3] =
     [Some ''0'', Some ''1'', Some ''2''] \<and>
   map (\<lambda>c. opt_id (comps (snd (prepareNested quiet_env [1, 2, 3] 0
          (empty_world\<lparr>comps := (comps empty_world)(0 := blank\<lparr>opt_id := Some ''P''\<rparr>)\<rparr>))) c)) [1, 2, 3] =
     [Some ''P_0'', Some ''P_1'', Some ''P_2''] \<and>
   map (\<lambda>c. parent (comps (snd (prepareNested quiet_env [1, 2, 3] 0 empty_world)) c)) [1, 2, 3] =
     [Some 0, Some 0, Some 0]"
  using prepareNested_links_and_ids [of "[1, 2, 3]" 0 quiet_env empty_world]
    prepareNested_links_and_ids [of "[1, 2, 3]" 0 quiet_env
      "empty_world\<lparr>comps := (comps empty_world)(0 := blank\<lparr>opt_id := Some ''P''\<rparr>)\<rparr>"]
  by (simp add: All_less_Suc empty_world_def blank_def string_of_nat.simps digit_char_def)

lemma string_of_nat_examples:
  "string_of_nat 0 = ''0''" "string_of_nat 7 = ''7''" "string_of_nat 10 = ''10''"
  "string_of_nat 120 = ''120''"
  by (simp_all add: string_of_nat.simps digit_char_def)

section \<open>Properties of Sequence\<close>

lemma status_Component_end [simp]:
  "status (comps (Component_end a r t w) b) = (if b = a then Done else status (comps w b))"
  by (simp add: Component_end_def)

lemma trace_Component_end [simp]:
  "trace (Component_end a r t w) = trace w @ [CallEnd a r t]"
  by (simp add: Component_end_def)

lemma Sequence_onEnd_status_self:
  "status (comps w a) = Done \<Longrightarrow> status (comps (Sequence_onEnd s w) a) = Done"
  by (simp add: Sequence_onEnd_def split: option.splits)

lemma Sequence_onEnd_trace:
  "\<exists>rest. trace (Sequence_onEnd s w) = trace w @ rest"
  by (simp add: Sequence_onEnd_def split: option.splits)

text \<open>
  Claim C3. \<^verbatim>\<open>Sequence.step\<close> on a sequence whose status is done fails with the
  error "Sequence ended, can't take any more steps". On a sequence that is not done, with
  the cursor past the last entry, it ends the sequence by \<^verbatim>\<open>this.end('completion',
  frameTimeStamp)\<close>, after which the status is done and any further step fails again.
  Otherwise it records the next index and child as current, subscribes the stepper to the
  child's \<^verbatim>\<open>after:end\<close> event, runs the child and returns the future of that run.
\<close>

theorem Sequence_step_behaviour:
  "(status (comps w (self s)) = Done \<longrightarrow>
      Sequence_step s ts sy w = Inl (Error sequence_ended_message)) \<and>
   (status (comps w (self s)) \<noteq> Done \<and> iterator s = Some (arr, i) \<and> length arr \<le> i \<longrightarrow>
      Sequence_step s ts sy w =
        Inr (EndOf (self s) (JStr ''completion'') ts, s, Sequence_end s (JStr ''completion'') ts w) \<and>
      status (comps (Sequence_end s (JStr ''completion'') ts w) (self s)) = Done \<and>
      (\<exists>rest. trace (Sequence_end s (JStr ''completion'') ts w) =
                trace w @ CallEnd (self s) (JStr ''completion'') ts # rest) \<and>
      Sequence_step s ts' sy' (Sequence_end s (JStr ''completion'') ts w) =
        Inl (Error sequence_ended_message)) \<and>
   (status (comps w (self s)) \<noteq> Done \<and> iterator s = Some (arr, i) \<and> i < length arr \<longrightarrow>
      Sequence_step s ts sy w =
        Inr (RunOf (arr ! i) ts sy,
             s\<lparr>iterator := Some (arr, Suc i), currentPosition := Some i,
               currentComponent := Some (arr ! i)\<rparr>,
             w\<lparr>trace := trace w @ [CallOn (arr ! i) ''after:end'' (stepper s),
                                    CallRun (arr ! i) ts sy]\<rparr>))"
proof -
  let ?w' = "Sequence_end s (JStr ''completion'') ts w"
  have dn: "status (comps ?w' (self s)) = Done"
    by (simp add: Sequence_end_def Sequence_onEnd_status_self)
  have tr: "\<exists>rest. trace ?w' = trace w @ CallEnd (self s) (JStr ''completion'') ts # rest"
    using Sequence_onEnd_trace [of s "Component_end (self s) (JStr ''completion'') ts w"]
    by (auto simp: Sequence_end_def)
  show ?thesis
    using dn tr by (simp add: Sequence_step_def Let_def emit_def)
qed


theorem Sequence_step_behaviour_witness:
  "(status (comps running_world (self (cursor_at 0))) \<noteq> Done \<and>
    iterator (cursor_at 0) = Some ([1, 2], 0) \<and> 0 < length [1, 2 :: nat] \<and>
    Sequence_step (cursor_at 0) (JNum 5) JUndefined running_world =
      Inr (RunOf 1 (JNum 5) JUndefined, cursor_at 1,
           running_world\<lparr>trace := [CallOn 1 ''after:end'' (Some (Stepper 0)),
                                    CallRun 1 (JNum 5) JUndefined]\<rparr>)) \<and>
   (status (comps running_world (self (cursor_at 2))) \<noteq> Done \<and>
    iterator (cursor_at 2) = Some ([1, 2], 2) \<and> length [1, 2 :: nat] \<le> 2 \<and>
    Sequence_step (cursor_at 2) (JNum 9) JUndefined running_world =
      Inr (EndOf 0 (JStr ''completion'') (JNum 9), cursor_at 2,
           Sequence_end (cursor_at 2) (JStr ''completion'') (JNum 9) running_world) \<and>
    Sequence_step (cursor_at 2) (JNum 10) JUndefined
        (Sequence_end (cursor_at 2) (JStr ''completion'') (JNum 9) running_world) =
      Inl (Error sequence_ended_message)) \<and>
   (status (comps (run_to_completion 0 running_world) (self (cursor_at 1))) = Done \<and>
    Sequence_step (cursor_at 1) (JNum 5) JUndefined (run_to_completion 0 running_world) =
      Inl (Error sequence_ended_message))"
  using Sequence_step_behaviour [of running_world "cursor_at 0" "JNum 5" JUndefined "[1, 2]" 0]
    Sequence_step_behaviour [of running_world "cursor_at 2" "JNum 9" JUndefined "[1, 2]" 2
      "JNum 10" JUndefined]
    Sequence_step_behaviour [of "run_to_completion 0 running_world" "cursor_at 1" "JNum 5" JUndefined]
  by (simp add: cursor_at_def running_world_def empty_world_def blank_def run_to_completion_def)

text \<open>
  Claim C6. \<^verbatim>\<open>Sequence.onEnd\<close>, the hook run when the sequence ends: if there is a
  current child and its status is not done, the stepper is first unsubscribed from the
  child's \<^verbatim>\<open>after:end\<close> event and the child is then ended with the reason
  "abort by sequence"; nothing else changes. Without a current child, or with a current
  child that is done, nothing is touched. The handler taken off is the one that
  \<^verbatim>\<open>step\<close> had put on the child when it became current.
\<close>

theorem Sequence_onEnd_behaviour:
  "(currentComponent s = Some c \<and> status (comps w c) \<noteq> Done \<longrightarrow>
      Sequence_onEnd s w =
        w\<lparr>comps := (comps w)(c := (comps w c)\<lparr>status := Done\<rparr>),
          trace := trace w @ [CallOff c ''after:end'' (stepper s),
                               CallEnd c (JStr ''abort by sequence'') JUndefined]\<rparr>) \<and>
   (currentComponent s = None \<or> (currentComponent s = Some c \<and> status (comps w c) = Done) \<longrightarrow>
      Sequence_onEnd s w = w) \<and>
   (Sequence_step s ts sy w = Inr (fu, s', w') \<and> currentComponent s' = Some c \<and>
    currentComponent s \<noteq> Some c \<longrightarrow>
      CallOn c ''after:end'' (stepper s') \<in> set (trace w'))"
  by (auto simp: Sequence_onEnd_def Component_end_def emit_def Sequence_step_def Let_def
           split: option.splits if_splits)

theorem Sequence_onEnd_behaviour_witness:
  "(currentComponent (cursor_at 1) = Some 1 \<and> status (comps running_world 1) \<noteq> Done \<and>
    trace (Sequence_onEnd (cursor_at 1) running_world) =
      [CallOff 1 ''after:end'' (Some (Stepper 0)),
       CallEnd 1 (JStr ''abort by sequence'') JUndefined] \<and>
    status (comps (Sequence_onEnd (cursor_at 1) running_world) 1) = Done) \<and>
   (currentComponent (cursor_at 0) = None \<and>
    Sequence_onEnd (cursor_at 0) running_world = running_world) \<and>
   (currentComponent (cursor_at 1) = Some 1 \<and>
    status (comps (run_to_completion 1 running_world) 1) = Done \<and>
    Sequence_onEnd (cursor_at 1) (run_to_completion 1 running_world) =
      run_to_completion 1 running_world) \<and>
   (Sequence_step (cursor_at 0) JUndefined JUndefined running_world =
      Inr (RunOf 1 JUndefined JUndefined, cursor_at 1,
           running_world\<lparr>trace := [CallOn 1 ''after:end'' (Some (Stepper 0)),
                                    CallRun 1 JUndefined JUndefined]\<rparr>) \<and>
    CallOn 1 ''after:end'' (stepper (cursor_at 1)) \<in>
      set (trace (running_world\<lparr>trace := [CallOn 1 ''after:end'' (Some (Stepper 0)),
                                    CallRun 1 JUndefined JUndefined]\<rparr>)))"
  using Sequence_onEnd_behaviour [of "cursor_at 1" 1 running_world]
    Sequence_onEnd_behaviour [of "cursor_at 0" 1 running_world]
    Sequence_onEnd_behaviour [of "cursor_at 1" 1 "run_to_completion 1 running_world"]
    Sequence_onEnd_behaviour [of "cursor_at 0" 1 running_world JUndefined JUndefined
      "RunOf 1 JUndefined JUndefined" "cursor_at 1"
      "running_world\<lparr>trace := [CallOn 1 ''after:end'' (Some (Stepper 0)),
                                    CallRun 1 JUndefined JUndefined]\<rparr>"]
  by (simp add: cursor_at_def running_world_def empty_world_def blank_def run_to_completion_def
        Sequence_step_def Let_def emit_def)

section \<open>Progress of a container\<close>

lemma nearest_even_of_int [simp]: "nearest_even (of_int k) = k"
  by (simp add: nearest_even_def)

lemma pow2_powr: "pow2 j = 2 powr (of_int j)"
  by (simp add: pow2_def powr_realpow [symmetric] powr_minus field_simps)

lemma pow2_pos [simp]: "0 < pow2 j"
  by (simp add: pow2_def)

lemma pow2_nonzero [simp]: "pow2 j \<noteq> 0"
  by (simp add: pow2_def)

lemma binade_eq:
  assumes "pow2 k \<le> \<bar>x\<bar>" and "\<bar>x\<bar> < pow2 (k + 1)" and "- 1022 \<le> k"
  shows "binade x = k"
proof -
  have pos: "0 < \<bar>x\<bar>"
    using assms(1) pow2_pos [of k] by linarith
  have "\<lfloor>log 2 \<bar>x\<bar>\<rfloor> = k"
    using assms(1,2) pos by (simp add: floor_log_eq_powr_iff pow2_powr)
  then show ?thesis
    using assms(3) by (simp add: binade_def)
qed

text \<open>A number that is a multiple of the spacing of the doubles around it is a double.\<close>

lemma to_double_exact:
  assumes "x = of_int m * pow2 (binade x - 52)" and "\<bar>x\<bar> < 2 ^ 1024"
  shows "to_double x = Num x"
proof (cases "x = 0")
  case True
  then show ?thesis by (simp add: to_double_def)
next
  case False
  have "x / pow2 (binade x - 52) = of_int m * pow2 (binade x - 52) / pow2 (binade x - 52)"
    using assms(1) by (rule arg_cong [where f = "\<lambda>z. z / pow2 (binade x - 52)"])
  also have "\<dots> = of_int m"
    by simp
  finally have "x / pow2 (binade x - 52) = of_int m" .
  then have "of_int (nearest_even (x / pow2 (binade x - 52))) * pow2 (binade x - 52) = x"
    using assms(1) by simp
  then show ?thesis
    using False assms(2) by (simp add: to_double_def Let_def)
qed

lemma to_double_1: "to_double 1 = Num 1"
proof -
  have b: "binade 1 = 0"
    by (rule binade_eq) (simp_all add: pow2_def)
  show ?thesis
    by (rule to_double_exact [where m = "2 ^ 52"]) (simp_all add: b pow2_def)
qed

lemma to_double_2: "to_double 2 = Num 2"
proof -
  have b: "binade 2 = 1"
    by (rule binade_eq) (simp_all add: pow2_def)
  show ?thesis
    by (rule to_double_exact [where m = "2 ^ 52"]) (simp_all add: b pow2_def)
qed

lemma to_double_half: "to_double (1 / 2) = Num (1 / 2)"
proof -
  have b: "binade (1 / 2) = - 1"
    by (rule binade_eq) (simp_all add: pow2_def)
  show ?thesis
    by (rule to_double_exact [where m = "2 ^ 52"]) (simp_all add: b pow2_def)
qed

text \<open>
  Rounding at work: the sum of 1 and the double just below 1 lies half way between two
  doubles and goes to the even one, which is 2.
\<close>

lemma to_double_tie: "to_double (1 + (1 - 1 / 2 ^ 53)) = Num 2"
proof -
  define x :: real where "x = 1 + (1 - 1 / 2 ^ 53)"
  have nz: "x \<noteq> 0" and pos: "0 < x"
    by (simp_all add: x_def)
  have b: "binade x = 0"
    by (rule binade_eq) (simp_all add: pow2_def x_def)
  have q: "x / pow2 (- 52) = 2 ^ 53 - 1 / 2"
    by (simp add: pow2_def x_def)
  have f: "\<lfloor>(2 ^ 53 - 1 / 2 :: real)\<rfloor> = 2 ^ 53 - 1"
    by (simp add: floor_eq_iff)
  have n: "nearest_even (2 ^ 53 - 1 / 2) = 2 ^ 53"
    unfolding nearest_even_def f Let_def by simp
  have u: "pow2 (binade x - 52) = pow2 (- 52)"
    by (simp add: b)
  have "to_double x = Num (of_int (2 ^ 53) * pow2 (- 52))"
    unfolding to_double_def Let_def u q n using nz by (simp add: pow2_def)
  then show ?thesis
    by (simp add: pow2_def x_def)
qed


lemma number_add_NaN_right [simp]: "number_add a NaN = NaN"
  by (cases a) simp_all

lemma foldl_number_add_NaN [simp]: "foldl number_add NaN ns = NaN"
  by (induction ns) simp_all

lemma foldl_number_add_has_NaN:
  "NaN \<in> set ns \<Longrightarrow> foldl number_add a ns = NaN"
  by (induction ns arbitrary: a) auto

lemma mean_has_NaN: "NaN \<in> set ns \<Longrightarrow> mean ns = NaN"
proof (cases ns)
  case Nil
  then show ?thesis by (simp add: mean_def)
next
  case (Cons a rest)
  assume "NaN \<in> set ns"
  with Cons have "a = NaN \<or> NaN \<in> set rest" by auto
  then have "foldl number_add a rest = NaN"
    by (auto simp: foldl_number_add_has_NaN)
  with Cons show ?thesis by (simp add: mean_def)
qed

lemma foldl_number_add_exact:
  "(\<And>k. 0 < k \<Longrightarrow> k \<le> length rs \<Longrightarrow>
      to_double (r + sum_list (take k rs)) = Num (r + sum_list (take k rs))) \<Longrightarrow>
   foldl number_add (Num r) (map Num rs) = Num (r + sum_list rs)"
proof (induction rs arbitrary: r)
  case Nil
  then show ?case by simp
next
  case (Cons a rs)
  have first: "to_double (r + a) = Num (r + a)"
    using Cons.prems [of 1] by simp
  have "foldl number_add (Num (r + a)) (map Num rs) = Num (r + a + sum_list rs)"
  proof (rule Cons.IH)
    fix k assume "0 < k" and "k \<le> length rs"
    then show "to_double (r + a + sum_list (take k rs)) = Num (r + a + sum_list (take k rs))"
      using Cons.prems [of "Suc k"] by (simp add: add.assoc)
  qed
  then show ?case
    by (simp add: first add.assoc)
qed

lemma mean_exact:
  assumes "xs \<noteq> []"
    and "\<And>k. 1 < k \<Longrightarrow> k \<le> length xs \<Longrightarrow>
           to_double (sum_list (take k xs)) = Num (sum_list (take k xs))"
    and "to_double (sum_list xs / real (length xs)) = Num (sum_list xs / real (length xs))"
  shows "mean (map Num xs) = Num (sum_list xs / real (length xs))"
proof -
  from assms(1) obtain a rest where xs: "xs = a # rest"
    by (cases xs) auto
  have "foldl number_add (Num a) (map Num rest) = Num (a + sum_list rest)"
  proof (rule foldl_number_add_exact)
    fix k assume "0 < k" and "k \<le> length rest"
    then show "to_double (a + sum_list (take k rest)) = Num (a + sum_list (take k rest))"
      using assms(2) [of "Suc k"] by (simp add: xs)
  qed
  then show ?thesis
    using assms(3) by (simp add: mean_def xs)
qed

text \<open>
  Claim C2, as amended. For a sequence and for a parallel, in every state: when the
  status is done the progress is 1; when it is not, the progress is the mean of the
  children's progress values as \<^verbatim>\<open>mean\<close> of lodash computes it in floating point.
  That mean is \<^verbatim>\<open>NaN\<close> when there are no children or when a child reports
  \<^verbatim>\<open>NaN\<close>, and it is the arithmetic mean of the values whenever neither the sums of
  the first \<open>k\<close> values nor the quotient need rounding. Progress 1 does not imply done.
\<close>

theorem container_progress:
  "(status (comps w (self s)) = Done \<longrightarrow> Sequence_progress s w = Num 1) \<and>
   (status (comps w (self s)) \<noteq> Done \<longrightarrow>
      Sequence_progress s w = mean (map (\<lambda>c. progress (comps w c)) (content s))) \<and>
   (status (comps w (self p)) = Done \<longrightarrow> Parallel_progress p w = Num 1) \<and>
   (status (comps w (self p)) \<noteq> Done \<longrightarrow>
      Parallel_progress p w = mean (map (\<lambda>c. progress (comps w c)) (content p))) \<and>
   mean [] = NaN \<and>
   (NaN \<in> set ns \<longrightarrow> mean ns = NaN) \<and>
   (xs \<noteq> [] \<and>
    (\<forall>k. 1 < k \<and> k \<le> length xs \<longrightarrow>
         to_double (sum_list (take k xs)) = Num (sum_list (take k xs))) \<and>
    to_double (sum_list xs / real (length xs)) = Num (sum_list xs / real (length xs)) \<longrightarrow>
      mean (map Num xs) = Num (sum_list xs / real (length xs)))"
  using mean_exact [of xs] mean_has_NaN [of ns]
  by (simp add: Sequence_progress_def Parallel_progress_def mean_def)

text \<open>
  The claim as stated (progress is 1 if and only if the status is done) fails in the state
  where both children of a sequence have run to completion and the stepper has not yet
  ended the sequence: the mean is 1 and the status is still running.
\<close>

theorem container_progress_counterexample:
  "\<not> (Sequence_progress (fst both_children_finished) (snd both_children_finished) = Num 1
        \<longleftrightarrow> status (comps (snd both_children_finished) (self (fst both_children_finished))) = Done)"
  by (simp add: both_children_finished_def after_step_def Sequence_step_def Let_def
        cursor_at_def running_world_def empty_world_def blank_def run_to_completion_def
        emit_def Sequence_progress_def mean_def to_double_1 to_double_2)

theorem container_progress_witness:
  "(status (comps (run_to_completion 1 running_world) (self (cursor_at 1))) \<noteq> Done \<and>
    Sequence_progress (cursor_at 1) (run_to_completion 1 running_world) = Num (1 / 2) \<and>
    Parallel_progress (new_Parallel 0 (Some [1, 2]) None) (run_to_completion 1 running_world) =
      Num (1 / 2)) \<and>
   (status (comps (run_to_completion 0 running_world) (self (cursor_at 2))) = Done \<and>
    Sequence_progress (cursor_at 2) (run_to_completion 0 running_world) = Num 1 \<and>
    Parallel_progress (new_Parallel 0 (Some [1, 2]) None) (run_to_completion 0 running_world) =
      Num 1) \<and>
   (status (comps running_world (self (new_Sequence 0 None None))) \<noteq> Done \<and>
    Sequence_progress (new_Sequence 0 None None) running_world = NaN \<and>
    Parallel_progress (new_Parallel 0 None None) running_world = NaN) \<and>
   (NaN \<in> set [Num 1, NaN] \<and> mean [Num 1, NaN] = NaN) \<and>
   ([1, 0 :: real] \<noteq> [] \<and> mean (map Num [1, 0]) = Num (1 / 2))"
  using container_progress [of "run_to_completion 1 running_world" "cursor_at 1"
      "new_Parallel 0 (Some [1, 2]) None" "[Num 1, NaN]" "[1, 0]"]
    container_progress [of "run_to_completion 0 running_world" "cursor_at 2"
      "new_Parallel 0 (Some [1, 2]) None"]
    container_progress [of running_world "new_Sequence 0 None None" "new_Parallel 0 None None"]
  by (simp add: cursor_at_def new_Parallel_def new_Sequence_def running_world_def
        empty_world_def blank_def run_to_completion_def to_double_1 to_double_half
        less_Suc_eq_le le_Suc_eq)

text \<open>
  With rounding the mean can be 1 although a child reports less: the sum of 1 and the
  double just below 1 is rounded to 2.
\<close>

lemma mean_rounds: "mean [Num 1, Num (1 - 1 / 2 ^ 53)] = Num 1"
proof -
  have "number_add (Num 1) (Num (1 - 1 / 2 ^ 53)) = Num 2"
    by (simp only: number_add.simps to_double_tie)
  then have "mean [Num 1, Num (1 - 1 / 2 ^ 53)] = number_div (Num 2) 2"
    by (simp add: mean_def del: number_add.simps)
  then show ?thesis
    by (simp add: to_double_1)
qed

section \<open>Properties of Loop\<close>

lemma new_Loop_fields [simp]:
  "template (new_Loop a oc osh ot ops osa) = (case ot of None \<Rightarrow> NoTemplate | Some t \<Rightarrow> t)"
  "templateParameters (new_Loop a oc osh ot ops osa) = (case ops of None \<Rightarrow> [] | Some ps \<Rightarrow> ps)"
  "sample (new_Loop a oc osh ot ops osa) =
     (case osa of None \<Rightarrow> Some \<lparr>sample_n = JUndefined, sample_replace = JBool False\<rparr>
      | Some sp \<Rightarrow> sp)"
  "self (new_Loop a oc osh ot ops osa) = a"
  "content (new_Loop a oc osh ot ops osa) = (case oc of None \<Rightarrow> [] | Some cs \<Rightarrow> cs)"
  "shuffle (new_Loop a oc osh ot ops osa) = (case osh of None \<Rightarrow> False | Some b \<Rightarrow> b)"
  "currentComponent (new_Loop a oc osh ot ops osa) = None"
  "iterator (new_Loop a oc osh ot ops osa) = None"
  by (simp_all add: new_Loop_def new_Sequence_def sequence.extend_def loop.fields_def
        sequence.defs loop.defs)

lemma call_factory_in_order:
  "call_factory f this i ps w =
     in_order (map (\<lambda>k. f (ps ! k) (i + k) this) [0..<length ps]) w"
proof (induction ps arbitrary: i w)
  case Nil
  then show ?case by simp
next
  case (Cons p ps)
  have upt: "[0..<length (p # ps)] = 0 # map Suc [0..<length ps]"
    by (simp add: upt_conv_Cons map_Suc_upt del: upt_Suc)
  show ?case
    unfolding upt by (simp add: Cons.IH comp_def split_def Let_def)
qed

lemma in_order_length: "length (fst (in_order ms w)) = length ms"
  by (induction ms arbitrary: w) (simp_all add: split_def)

lemma in_order_append:
  "in_order (ms @ ns) w =
     (case in_order ms w of (xs, w1) \<Rightarrow>
        (case in_order ns w1 of (ys, w2) \<Rightarrow> (xs @ ys, w2)))"
  by (induction ms arbitrary: w) (simp_all add: split_def)

lemma in_order_nth:
  "i < length ms \<Longrightarrow>
   fst (in_order ms w) ! i = fst ((ms ! i) (snd (in_order (take i ms) w)))"
proof (induction ms arbitrary: w i)
  case Nil
  then show ?case by simp
next
  case (Cons m ms)
  show ?case
  proof (cases i)
    case 0
    then show ?thesis by (simp add: split_def)
  next
    case (Suc j)
    with Cons.prems have "j < length ms" by simp
    from Cons.IH [OF this] Suc show ?thesis by (simp add: split_def)
  qed
qed

lemma Sequence_onPrepare_content:
  "content (fst (snd (Sequence_onPrepare ev s w))) =
     (if shuffle s then shuffle_of ev (content s) else content s)"
  by (simp add: Sequence_onPrepare_def Let_def split_def)

text \<open>
  Claim C8. For a loop whose template is a factory \<open>f\<close> and which has no sampling
  configured, the generated content is the list of the results of \<open>f p\<^sub>0 0 loop\<close>,
  \<open>f p\<^sub>1 1 loop\<close>, ... over the configured parameters, the calls being made in this
  order; \<open>loop\<close> is the address of the loop itself. It has one entry per parameter,
  and entry \<open>i\<close> is what \<open>f\<close> returns for \<open>p\<^sub>i\<close> and \<open>i\<close> in the store left by the
  calls before it. This content is what the sequence's own preparation then gets (and
  shuffles, if that is asked for).
\<close>

theorem Loop_factory_content:
  assumes "template l = Factory f"
    and "sample l = Some sp" and "\<not> truthy (sample_n sp)"
  shows "\<exists>r l' w'.
           Loop_onPrepare ev l w = Inr (r, l', w') \<and>
           fst (generate_content l (templateParameters l) w) =
             l\<lparr>content := fst (in_order (map (\<lambda>i. f (templateParameters l ! i) i (self l))
                                         [0..<length (templateParameters l)]) w)\<rparr> \<and>
           content l' =
             (if shuffle l then shuffle_of ev (content (fst (generate_content l (templateParameters l) w)))
              else content (fst (generate_content l (templateParameters l) w))) \<and>
           length (content (fst (generate_content l (templateParameters l) w))) =
             length (templateParameters l) \<and>
           (\<forall>i<length (templateParameters l).
              content (fst (generate_content l (templateParameters l) w)) ! i =
                fst (f (templateParameters l ! i) i (self l)
                      (snd (in_order (map (\<lambda>k. f (templateParameters l ! k) k (self l)) [0..<i]) w))))"
proof -
  let ?ps = "templateParameters l"
  let ?ms = "map (\<lambda>i. f (?ps ! i) i (self l)) [0..<length ?ps]"
  have eff: "effective_parameters ev l w = Inr (?ps, w)"
    using assms by (simp add: effective_parameters_def)
  have gen: "generate_content l ?ps w = (l\<lparr>content := fst (in_order ?ms w)\<rparr>, snd (in_order ?ms w))"
    using assms(1) call_factory_in_order [of f "self l" 0 ?ps w]
    by (simp add: generate_content_def split_def Let_def)
  have lp: "Loop_onPrepare ev l w =
      Inr (Sequence_onPrepare ev (l\<lparr>content := fst (in_order ?ms w)\<rparr>) (snd (in_order ?ms w)))"
    by (simp add: Loop_onPrepare_def eff gen)
  have nth: "\<forall>i<length ?ps. fst (in_order ?ms w) ! i =
      fst (f (?ps ! i) i (self l) (snd (in_order (map (\<lambda>k. f (?ps ! k) k (self l)) [0..<i]) w)))"
  proof (intro allI impI)
    fix i assume i: "i < length ?ps"
    then have "take i ?ms = map (\<lambda>k. f (?ps ! k) k (self l)) [0..<i]"
      by (simp add: take_map)
    with in_order_nth [of i ?ms w] i show "fst (in_order ?ms w) ! i =
      fst (f (?ps ! i) i (self l) (snd (in_order (map (\<lambda>k. f (?ps ! k) k (self l)) [0..<i]) w)))"
      by simp
  qed
  obtain r l' w' where r: "Sequence_onPrepare ev (l\<lparr>content := fst (in_order ?ms w)\<rparr>) (snd (in_order ?ms w)) = (r, l', w')"
    by (rule prod_cases3)
  have c: "content l' = (if shuffle l then shuffle_of ev (fst (in_order ?ms w)) else fst (in_order ?ms w))"
    using Sequence_onPrepare_content [of ev "l\<lparr>content := fst (in_order ?ms w)\<rparr>" "snd (in_order ?ms w)"] r
    by simp
  have g1: "fst (generate_content l ?ps w) = l\<lparr>content := fst (in_order ?ms w)\<rparr>"
    by (simp add: gen)
  have g2: "content (fst (generate_content l ?ps w)) = fst (in_order ?ms w)"
    by (simp add: gen)
  have f1: "Loop_onPrepare ev l w = Inr (r, l', w')"
    by (simp only: lp r)
  have f3: "content l' =
      (if shuffle l then shuffle_of ev (content (fst (generate_content l ?ps w)))
       else content (fst (generate_content l ?ps w)))"
    by (simp only: g2 c)
  have f4: "length (content (fst (generate_content l ?ps w))) = length ?ps"
    by (simp only: g2 in_order_length length_map length_upt diff_zero)
  have f5: "\<forall>i<length ?ps. content (fst (generate_content l ?ps w)) ! i =
      fst (f (?ps ! i) i (self l) (snd (in_order (map (\<lambda>k. f (?ps ! k) k (self l)) [0..<i]) w)))"
    using nth by (simp only: g2)
  show ?thesis
    apply (rule exI [of _ r], rule exI [of _ l'], rule exI [of _ w'])
    apply (intro conjI)
        apply (rule f1)
       apply (rule g1)
      apply (rule f3)
     apply (rule f4)
    apply (rule f5)
    done
qed


theorem Loop_factory_content_witness:
  "template factory_loop = Factory make_child \<and>
   sample factory_loop = Some \<lparr>sample_n = JUndefined, sample_replace = JBool False\<rparr> \<and>
   \<not> truthy (sample_n \<lparr>sample_n = JUndefined, sample_replace = JBool False\<rparr>) \<and>
   content (fst (generate_content factory_loop (templateParameters factory_loop) running_world)) =
     [100, 101, 102] \<and>
   map (\<lambda>c. bags (snd (generate_content factory_loop (templateParameters factory_loop)
                       running_world)) c ''index'') [100, 101, 102] =
     [Some (JNum 0), Some (JNum 1), Some (JNum 2)] \<and>
   map (\<lambda>c. bags (snd (generate_content factory_loop (templateParameters factory_loop)
                       running_world)) c ''a'') [100, 101, 102] =
     [Some (JNum 1), Some (JNum 2), Some (JNum 3)]"
  using Loop_factory_content [of factory_loop make_child
      "\<lparr>sample_n = JUndefined, sample_replace = JBool False\<rparr>" quiet_env running_world]
  by (simp add: factory_loop_def three_records_def generate_content_def make_child_def
        running_world_def empty_world_def Let_def)

text \<open>
  Claim C10. \<^verbatim>\<open>Loop.onPrepare\<close> asks the random service for a sample only when
  \<^verbatim>\<open>sample.n\<close> is truthy. When it is absent, undefined or 0 (or falsy in any other
  way), the parameters used are the configured \<^verbatim>\<open>templateParameters\<close>, unchanged and
  in their order, and nothing is logged; so a sample count of 0 gives the full list, not an
  empty one. A loop constructed without a \<^verbatim>\<open>sample\<close> option has \<^verbatim>\<open>n\<close> undefined.
  With a truthy count the parameters are what the service returns.
\<close>

theorem Loop_sampling_only_when_truthy:
  "(sample l = Some sp \<and> \<not> truthy (sample_n sp) \<longrightarrow>
      effective_parameters ev l w = Inr (templateParameters l, w)) \<and>
   (sample l = Some sp \<and> sample_n sp \<in> {JUndefined, JNum 0} \<longrightarrow>
      effective_parameters ev l w = Inr (templateParameters l, w)) \<and>
   (sample l = Some sp \<and> truthy (sample_n sp) \<longrightarrow>
      effective_parameters ev l w =
        (case sample_of ev (templateParameters l) (sample_n sp) (sample_replace sp) of
           Inl e \<Rightarrow> Inl e
         | Inr ps \<Rightarrow>
             Inr (ps, w\<lparr>trace := trace w @
                    [CallSample (templateParameters l) (sample_n sp) (sample_replace sp)]\<rparr>))) \<and>
   (effective_parameters ev l w = Inr (ps, w') \<and> trace w' \<noteq> trace w \<longrightarrow>
      (\<exists>sq. sample l = Some sq \<and> truthy (sample_n sq))) \<and>
   effective_parameters ev (new_Loop a oc osh ot (Some qs) None) w = Inr (qs, w) \<and>
   (sample l = Some sp \<and> \<not> truthy (sample_n sp) \<longrightarrow>
      Loop_onPrepare ev l w =
        Inr (Sequence_onPrepare ev (fst (generate_content l (templateParameters l) w))
               (snd (generate_content l (templateParameters l) w))))"
proof (intro conjI impI)
  assume "effective_parameters ev l w = Inr (ps, w') \<and> trace w' \<noteq> trace w"
  then show "\<exists>sq. sample l = Some sq \<and> truthy (sample_n sq)"
    by (auto simp: effective_parameters_def split: option.splits sum.splits if_splits)
next
  show "effective_parameters ev (new_Loop a oc osh ot (Some qs) None) w = Inr (qs, w)"
    by (simp add: effective_parameters_def)
next
  assume "sample l = Some sp \<and> \<not> truthy (sample_n sp)"
  then show "Loop_onPrepare ev l w =
        Inr (Sequence_onPrepare ev (fst (generate_content l (templateParameters l) w))
               (snd (generate_content l (templateParameters l) w)))"
    by (simp add: effective_parameters_def Loop_onPrepare_def split_def Let_def)
qed (auto simp: effective_parameters_def emit_def split: sum.splits)


theorem Loop_sampling_only_when_truthy_witness:
  "(sample factory_loop = Some \<lparr>sample_n = JUndefined, sample_replace = JBool False\<rparr> \<and>
    \<not> truthy JUndefined \<and>
    effective_parameters quiet_env factory_loop running_world = Inr (three_records, running_world)) \<and>
   (sample (factory_loop\<lparr>sample := Some \<lparr>sample_n = JNum 0, sample_replace = JBool True\<rparr>\<rparr>) =
      Some \<lparr>sample_n = JNum 0, sample_replace = JBool True\<rparr> \<and>
    JNum 0 \<in> {JUndefined, JNum 0} \<and>
    effective_parameters quiet_env
      (factory_loop\<lparr>sample := Some \<lparr>sample_n = JNum 0, sample_replace = JBool True\<rparr>\<rparr>)
      running_world = Inr (three_records, running_world)) \<and>
   (truthy (JNum 2) \<and>
    effective_parameters quiet_env
      (factory_loop\<lparr>sample := Some \<lparr>sample_n = JNum 2, sample_replace = JBool False\<rparr>\<rparr>)
      running_world =
      Inr (rev three_records,
           running_world\<lparr>trace := [CallSample three_records (JNum 2) (JBool False)]\<rparr>))"
  using Loop_sampling_only_when_truthy [of factory_loop
      "\<lparr>sample_n = JUndefined, sample_replace = JBool False\<rparr>" quiet_env running_world]
    Loop_sampling_only_when_truthy [of
      "factory_loop\<lparr>sample := Some \<lparr>sample_n = JNum 0, sample_replace = JBool True\<rparr>\<rparr>"
      "\<lparr>sample_n = JNum 0, sample_replace = JBool True\<rparr>" quiet_env running_world]
    Loop_sampling_only_when_truthy [of
      "factory_loop\<lparr>sample := Some \<lparr>sample_n = JNum 2, sample_replace = JBool False\<rparr>\<rparr>"
      "\<lparr>sample_n = JNum 2, sample_replace = JBool False\<rparr>" quiet_env running_world]
  by (simp add: factory_loop_def quiet_env_def running_world_def empty_world_def)

lemma prepareNested_Nil: "prepareNested ev [] p w = (At 0 (Fulfilled []), w)"
  by (simp add: prepareNested_def Promise_all_def)

lemma Sequence_onPrepare_empty:
  assumes "content s = []" and "shuffle s \<longrightarrow> shuffle_of ev [] = []"
  shows "Sequence_onPrepare ev s w =
           (ReturnsPromise (At 0 (Fulfilled ())),
            s\<lparr>content := [], iterator := Some ([], 0), stepper := Some (Stepper (self s))\<rparr>,
            (if shuffle s then emit (CallShuffle []) w else w))"
  using assms by (simp add: Sequence_onPrepare_def prepareNested_Nil)

text \<open>
  Claim C9. For a loop whose template is neither a component nor a function, once the
  parameters are determined, \<^verbatim>\<open>onPrepare\<close> does not fail: it writes the warning
  "Missing or invalid template in loop, no content generated" to the console and leaves
  the content as it is, and the sequence's own preparation follows. A content list that
  is empty, as the constructor leaves it, stays empty; the preparation is then fulfilled
  at once, and running the loop ends it at the first step with the reason "completion".
\<close>

theorem Loop_without_template:
  assumes "template l = NoTemplate" and "effective_parameters ev l w = Inr (ps, w1)"
  shows "\<exists>r l' w'.
           Loop_onPrepare ev l w = Inr (r, l', w') \<and>
           generate_content l ps w1 =
             (l, w1\<lparr>trace := trace w1 @ [ConsoleWarn missing_template_message]\<rparr>) \<and>
           content l' = (if shuffle l then shuffle_of ev (content l) else content l) \<and>
           (content l = [] \<and> (shuffle l \<longrightarrow> shuffle_of ev [] = []) \<longrightarrow>
              content l' = [] \<and> r = ReturnsPromise (At 0 (Fulfilled ())) \<and>
              (\<forall>ts. status (comps w' (self l')) \<noteq> Done \<longrightarrow>
                 Sequence_onRun l' ts w' =
                   Inr (EndOf (self l) (JStr ''completion'') ts, l',
                        Sequence_end l' (JStr ''completion'') ts w')))"
proof -
  let ?w2 = "w1\<lparr>trace := trace w1 @ [ConsoleWarn missing_template_message]\<rparr>"
  have gen: "generate_content l ps w1 = (l, ?w2)"
    using assms(1) by (simp add: generate_content_def emit_def)
  have lp: "Loop_onPrepare ev l w = Inr (Sequence_onPrepare ev l ?w2)"
    by (simp add: Loop_onPrepare_def assms(2) gen)
  obtain r l' w' where r: "Sequence_onPrepare ev l ?w2 = (r, l', w')"
    by (rule prod_cases3)
  have f1: "Loop_onPrepare ev l w = Inr (r, l', w')"
    by (simp only: lp r)
  have f3: "content l' = (if shuffle l then shuffle_of ev (content l) else content l)"
    using Sequence_onPrepare_content [of ev l ?w2] r by simp
  have f4: "content l = [] \<and> (shuffle l \<longrightarrow> shuffle_of ev [] = []) \<longrightarrow>
              content l' = [] \<and> r = ReturnsPromise (At 0 (Fulfilled ())) \<and>
              (\<forall>ts. status (comps w' (self l')) \<noteq> Done \<longrightarrow>
                 Sequence_onRun l' ts w' =
                   Inr (EndOf (self l) (JStr ''completion'') ts, l',
                        Sequence_end l' (JStr ''completion'') ts w'))"
  proof
    assume h: "content l = [] \<and> (shuffle l \<longrightarrow> shuffle_of ev [] = [])"
    then have "Sequence_onPrepare ev l ?w2 =
           (ReturnsPromise (At 0 (Fulfilled ())),
            l\<lparr>content := [], iterator := Some ([], 0), stepper := Some (Stepper (self l))\<rparr>,
            (if shuffle l then emit (CallShuffle []) ?w2 else ?w2))"
      by (intro Sequence_onPrepare_empty) simp_all
    with r have e: "r = ReturnsPromise (At 0 (Fulfilled ()))"
      "l' = l\<lparr>content := [], iterator := Some ([], 0), stepper := Some (Stepper (self l))\<rparr>"
      by simp_all
    show "content l' = [] \<and> r = ReturnsPromise (At 0 (Fulfilled ())) \<and>
              (\<forall>ts. status (comps w' (self l')) \<noteq> Done \<longrightarrow>
                 Sequence_onRun l' ts w' =
                   Inr (EndOf (self l) (JStr ''completion'') ts, l',
                        Sequence_end l' (JStr ''completion'') ts w'))"
      by (simp add: e Sequence_onRun_def Sequence_step_def)
  qed
  show ?thesis
    apply (rule exI [of _ r], rule exI [of _ l'], rule exI [of _ w'])
    apply (intro conjI)
       apply (rule f1)
      apply (rule gen)
     apply (rule f3)
    apply (rule f4)
    done
qed


theorem Loop_without_template_witness:
  "template untemplated_loop = NoTemplate \<and>
   effective_parameters quiet_env untemplated_loop running_world =
     Inr (three_records, running_world) \<and>
   content untemplated_loop = [] \<and> \<not> shuffle untemplated_loop \<and>
   Loop_onPrepare quiet_env untemplated_loop running_world =
     Inr (ReturnsPromise (At 0 (Fulfilled ())),
          untemplated_loop\<lparr>content := [], iterator := Some ([], 0),
                            stepper := Some (Stepper 0)\<rparr>,
          running_world\<lparr>trace := [ConsoleWarn missing_template_message]\<rparr>) \<and>
   Sequence_onRun
       (untemplated_loop\<lparr>content := [], iterator := Some ([], 0), stepper := Some (Stepper 0)\<rparr>)
       (JNum 7) (running_world\<lparr>trace := [ConsoleWarn missing_template_message]\<rparr>) =
     Inr (EndOf 0 (JStr ''completion'') (JNum 7),
          untemplated_loop\<lparr>content := [], iterator := Some ([], 0), stepper := Some (Stepper 0)\<rparr>,
          running_world\<lparr>comps := (comps running_world)(0 := blank\<lparr>status := Done\<rparr>),
                         trace := [ConsoleWarn missing_template_message,
                                   CallEnd 0 (JStr ''completion'') (JNum 7)]\<rparr>)"
  using Loop_without_template [of untemplated_loop quiet_env running_world three_records
      running_world]
  by (simp add: untemplated_loop_def effective_parameters_def Loop_onPrepare_def
        generate_content_def Sequence_onPrepare_def prepareNested_Nil emit_def
        Sequence_onRun_def Sequence_step_def Sequence_end_def Sequence_onEnd_def
        Component_end_def running_world_def empty_world_def blank_def)

lemma clone_step_fresh: "fresh (clone_step t p w) = fresh w + 3"
  by (simp add: clone_step_def extend_parameters_def Component_clone_def Let_def)



lemma clone_each_Cons:
  "clone_each t (p # ps) w =
     (fresh w # fst (clone_each t ps (clone_step t p w)), snd (clone_each t ps (clone_step t p w)))"
  by (simp add: clone_step_def split_def Let_def Component_clone_def)


lemma clone_each_fresh: "fresh (snd (clone_each t ps w)) = fresh w + 3 * length ps"
  by (induction ps arbitrary: w)
     (simp_all add: clone_each_Cons clone_step_fresh del: clone_each.simps(2))









section \<open>Properties of Parallel\<close>

lemma status_rank_less_Done: "(status_rank s < 3) = (s \<noteq> Done)"
  by (cases s) simp_all

lemma status_run_to_completion [simp]:
  "status (comps (run_to_completion c w) b) = (if b = c then Done else status (comps w b))"
  by (simp add: run_to_completion_def)

lemma trace_run_to_completion [simp]: "trace (run_to_completion c w) = trace w"
  by (simp add: run_to_completion_def)

lemma abort_running_status:
  "status (comps (abort_running cs w) a) = (if a \<in> set cs then Done else status (comps w a))"
  by (induction cs arbitrary: w) (auto simp: status_rank_less_Done)

lemma abort_running_count:
  "count_list (trace (abort_running cs w)) x =
     count_list (trace w) x +
     (if \<exists>c\<in>set cs. x = CallEnd c (JStr ''abort by parallel'') JUndefined \<and>
                      status (comps w c) \<noteq> Done
      then 1 else 0)"
proof (induction cs arbitrary: w)
  case Nil
  then show ?case by simp
next
  case (Cons c cs)
  show ?case
  proof (cases "status (comps w c) = Done")
    case True
    then show ?thesis
      by (auto simp: Cons.IH status_rank_less_Done)
  next
    case False
    then show ?thesis
      by (auto simp: Cons.IH status_rank_less_Done)
  qed
qed

lemma abort_running_all_done:
  "\<forall>c\<in>set cs. status (comps w c) = Done \<Longrightarrow> abort_running cs w = w"
  by (induction cs arbitrary: w) (simp_all add: status_rank_less_Done)

lemma abort_running_idem: "abort_running cs (abort_running cs w) = abort_running cs w"
  by (rule abort_running_all_done) (simp add: abort_running_status)


lemma foldl_emit:
  "foldl (\<lambda>v c. emit (f c) v) w cs = w\<lparr>trace := trace w @ map f cs\<rparr>"
  by (induction cs arbitrary: w) (simp_all add: emit_def)

lemma Parallel_end_unfold:
  "Parallel_end q v = abort_running (content q) (Component_end (self q) JUndefined JUndefined v)"
  by (simp add: Parallel_end_def Parallel_onEnd_def)

lemma Parallel_onRun_start:
  "snd (Parallel_onRun p ts w) =
     (p\<lparr>waiting := content p, armed := True\<rparr>,
      w\<lparr>trace := trace w @ map (\<lambda>c. CallWaitFor c ''end'') (content p) @
                         map (\<lambda>c. CallRun c ts JUndefined) (content p)\<rparr>)"
  by (simp add: Parallel_onRun_def Let_def foldl_emit)

lemma run_steps_Cons: "run_steps (s # ss) pw = run_steps ss (take_step s pw)"
  by (simp add: run_steps_def)

lemma run_steps_snoc: "run_steps (ss @ [s]) pw = take_step s (run_steps ss pw)"
  by (simp add: run_steps_def)

lemma run_steps_append: "run_steps (ss @ ts) pw = run_steps ts (run_steps ss pw)"
  by (simp add: run_steps_def)

lemma ended_append [simp]: "ended (ss @ ts) = ended ss @ ended ts"
  by (induction ss rule: ended.induct) simp_all

lemma joined_settled_filter:
  "joined_settled m cs (filter (\<lambda>c. c \<notin> set es) cs) = fired_enough m cs es"
  by (cases m) (auto simp: filter_empty_conv)

lemma take_step_disarmed:
  "\<not> armed q \<Longrightarrow>
   \<not> armed (fst (take_step s (q, v))) \<and>
   trace (snd (take_step s (q, v))) = trace v \<and>
   (\<forall>a. status (comps (snd (take_step s (q, v))) a) =
          (if a \<in> set (ended [s]) then Done else status (comps v a)))"
  by (cases s) (simp_all add: child_ended_def promise_jobs_def watcher_def)

lemma run_steps_disarmed:
  "\<not> armed q \<Longrightarrow>
   \<not> armed (fst (run_steps ss (q, v))) \<and>
   trace (snd (run_steps ss (q, v))) = trace v \<and>
   (\<forall>a. status (comps (snd (run_steps ss (q, v))) a) =
          (if a \<in> set (ended ss) then Done else status (comps v a)))"
proof (induction ss arbitrary: q v)
  case Nil
  then show ?case by (simp add: run_steps_def)
next
  case (Cons s ss)
  obtain q' v' where qv: "take_step s (q, v) = (q', v')"
    by (cases "take_step s (q, v)")
  from take_step_disarmed [OF Cons.prems, of s v] qv
  have d: "\<not> armed q'" and t: "trace v' = trace v"
    and st: "\<And>a. status (comps v' a) = (if a \<in> set (ended [s]) then Done else status (comps v a))"
    by simp_all
  have r: "run_steps (s # ss) (q, v) = run_steps ss (q', v')"
    by (simp only: run_steps_Cons qv)
  have e: "set (ended (s # ss)) = set (ended [s]) \<union> set (ended ss)"
    by (cases s) simp_all
  from Cons.IH [OF d, of v'] show ?case
    unfolding r e by (simp add: t st)
qed

text \<open>
  As long as no promise job runs after enough end events have fired, the parallel only
  records which children have ended.
\<close>

lemma run_steps_quiet:
  assumes "armed q" and "waiting q = content q"
    and "\<forall>i<length pre. pre ! i = PromiseJobs \<longrightarrow>
           \<not> fired_enough (mode q) (content q) (ended (take i pre))"
  shows "fst (run_steps pre (q, v)) =
           q\<lparr>waiting := filter (\<lambda>c. c \<notin> set (ended pre)) (content q)\<rparr> \<and>
         trace (snd (run_steps pre (q, v))) = trace v \<and>
         (\<forall>a. status (comps (snd (run_steps pre (q, v))) a) =
                (if a \<in> set (ended pre) then Done else status (comps v a)))"
  using assms(3)
proof (induction pre rule: rev_induct)
  case Nil
  then show ?case
    using assms(2) by (simp add: run_steps_def)
next
  case (snoc s pre)
  have q0: "\<forall>i<length pre. pre ! i = PromiseJobs \<longrightarrow>
           \<not> fired_enough (mode q) (content q) (ended (take i pre))"
  proof (intro allI impI)
    fix i assume i: "i < length pre" and j: "pre ! i = PromiseJobs"
    from snoc.prems i j have "\<not> fired_enough (mode q) (content q) (ended (take i (pre @ [s])))"
      by (auto simp: nth_append)
    with i show "\<not> fired_enough (mode q) (content q) (ended (take i pre))"
      by simp
  qed
  obtain q' v' where qv: "run_steps pre (q, v) = (q', v')"
    by (cases "run_steps pre (q, v)")
  note IH = snoc.IH [OF q0, unfolded qv fst_conv snd_conv]
  show ?case
  proof (cases s)
    case (ChildEnds c)
    have "removeAll c (filter (\<lambda>c. c \<notin> set (ended pre)) (content q)) =
          filter (\<lambda>a. a \<notin> set (ended (pre @ [ChildEnds c]))) (content q)"
      by (auto simp: removeAll_filter_not_eq intro: filter_cong)
    then show ?thesis
      using IH by (simp add: run_steps_snoc qv ChildEnds child_ended_def)
  next
    case PromiseJobs
    from snoc.prems PromiseJobs have "\<not> fired_enough (mode q) (content q) (ended pre)"
      by (auto simp: nth_append dest: spec [of _ "length pre"])
    then have "\<not> joined_settled (mode q') (content q') (waiting q')"
      using IH by (simp add: joined_settled_filter)
    then show ?thesis
      using IH by (simp add: run_steps_snoc qv PromiseJobs promise_jobs_def watcher_def)
  qed
qed


text \<open>
  Claim C4. A parallel is run; children end and promise jobs run, in any order. As long
  as no promise job has run after enough end events have fired (all of them under
  all-finish, one under first-finish), the parallel is not done and nothing has been
  ended: it does not end before. At the first promise job that runs after enough end
  events have fired the parallel ends, once: it is done from then on, whatever follows,
  and every child that is not done at that moment (it has not ended during the steps
  before, and was not done at the start) gets exactly one call of
  \<^verbatim>\<open>end('abort by parallel')\<close>, while no other child gets one; under all-finish that
  is no child at all. In any store \<^verbatim>\<open>onEnd\<close> makes that call once for each child
  that is not done and for no other, leaves every child done, and changes nothing when run
  again or when all children are done already. The parallel is not among its own children
  and is not done when it is run; the end events are those of its children.
\<close>

theorem Parallel_join_policy:
  assumes "self p \<notin> set (content p)" and "status (comps w (self p)) \<noteq> Done"
    and "set (ended pre) \<subseteq> set (content p)"
    and "\<forall>i<length pre. pre ! i = PromiseJobs \<longrightarrow>
           \<not> fired_enough (mode p) (content p) (ended (take i pre))"
  shows "status (comps (snd (run_steps pre (snd (Parallel_onRun p ts w)))) (self p)) \<noteq> Done \<and>
         (\<forall>a r t. count_list (trace (snd (run_steps pre (snd (Parallel_onRun p ts w)))))
                    (CallEnd a r t) = count_list (trace w) (CallEnd a r t)) \<and>
         (fired_enough (mode p) (content p) (ended pre) \<longrightarrow>
            status (comps (snd (run_steps (pre @ PromiseJobs # post) (snd (Parallel_onRun p ts w))))
                     (self p)) = Done \<and>
            count_list (trace (snd (run_steps (pre @ PromiseJobs # post)
                                      (snd (Parallel_onRun p ts w)))))
                (CallEnd (self p) JUndefined JUndefined) =
              count_list (trace w) (CallEnd (self p) JUndefined JUndefined) + 1 \<and>
            (\<forall>c. count_list (trace (snd (run_steps (pre @ PromiseJobs # post)
                                           (snd (Parallel_onRun p ts w)))))
                   (CallEnd c (JStr ''abort by parallel'') JUndefined) =
                 count_list (trace w) (CallEnd c (JStr ''abort by parallel'') JUndefined) +
                 (if c \<in> set (content p) \<and> c \<notin> set (ended pre) \<and> status (comps w c) \<noteq> Done
                  then 1 else 0))) \<and>
         (\<forall>c. count_list (trace (Parallel_onEnd p v)) (CallEnd c (JStr ''abort by parallel'') JUndefined) =
              count_list (trace v) (CallEnd c (JStr ''abort by parallel'') JUndefined) +
              (if c \<in> set (content p) \<and> status (comps v c) \<noteq> Done then 1 else 0)) \<and>
         (\<forall>c\<in>set (content p). status (comps (Parallel_onEnd p v) c) = Done) \<and>
         Parallel_onEnd p (Parallel_onEnd p v) = Parallel_onEnd p v \<and>
         ((\<forall>c\<in>set (content p). status (comps v c) = Done) \<longrightarrow> Parallel_onEnd p v = v)"
proof -
  let ?q = "p\<lparr>waiting := content p, armed := True\<rparr>"
  let ?w0 = "w\<lparr>trace := trace w @ map (\<lambda>c. CallWaitFor c ''end'') (content p) @
                               map (\<lambda>c. CallRun c ts JUndefined) (content p)\<rparr>"
  let ?q1 = "?q\<lparr>waiting := filter (\<lambda>c. c \<notin> set (ended pre)) (content ?q)\<rparr>"
  have start: "snd (Parallel_onRun p ts w) = (?q, ?w0)"
    by (rule Parallel_onRun_start)
  have c0: "\<And>a r t. count_list (trace ?w0) (CallEnd a r t) = count_list (trace w) (CallEnd a r t)"
    by (simp add: count_list_0_iff image_iff)
  obtain q1 v1 where qv: "run_steps pre (?q, ?w0) = (q1, v1)"
    by (cases "run_steps pre (?q, ?w0)")
  have "armed ?q" and "waiting ?q = content ?q"
    and "\<forall>i<length pre. pre ! i = PromiseJobs \<longrightarrow>
           \<not> fired_enough (mode ?q) (content ?q) (ended (take i pre))"
    using assms(4) by simp_all
  from run_steps_quiet [OF this, of ?w0]
  have q1: "q1 = ?q1" and t1: "trace v1 = trace ?w0"
    and s1: "\<And>a. status (comps v1 a) = (if a \<in> set (ended pre) then Done else status (comps w a))"
    unfolding qv by simp_all
  have c1: "\<And>a r t. count_list (trace v1) (CallEnd a r t) = count_list (trace w) (CallEnd a r t)"
    unfolding t1 by (rule c0)
  have self_pre: "self p \<notin> set (ended pre)"
    using assms(1,3) by auto
  have A1: "status (comps (snd (run_steps pre (snd (Parallel_onRun p ts w)))) (self p)) \<noteq> Done"
    unfolding start qv using s1 [of "self p"] self_pre assms(2) by simp
  have A2: "\<forall>a r t. count_list (trace (snd (run_steps pre (snd (Parallel_onRun p ts w)))))
                    (CallEnd a r t) = count_list (trace w) (CallEnd a r t)"
    unfolding start qv using c1 by simp
  have B: "fired_enough (mode p) (content p) (ended pre) \<longrightarrow>
            status (comps (snd (run_steps (pre @ PromiseJobs # post) (snd (Parallel_onRun p ts w))))
                     (self p)) = Done \<and>
            count_list (trace (snd (run_steps (pre @ PromiseJobs # post)
                                      (snd (Parallel_onRun p ts w)))))
                (CallEnd (self p) JUndefined JUndefined) =
              count_list (trace w) (CallEnd (self p) JUndefined JUndefined) + 1 \<and>
            (\<forall>c. count_list (trace (snd (run_steps (pre @ PromiseJobs # post)
                                           (snd (Parallel_onRun p ts w)))))
                   (CallEnd c (JStr ''abort by parallel'') JUndefined) =
                 count_list (trace w) (CallEnd c (JStr ''abort by parallel'') JUndefined) +
                 (if c \<in> set (content p) \<and> c \<notin> set (ended pre) \<and> status (comps w c) \<noteq> Done
                  then 1 else 0))"
  proof
    assume fe: "fired_enough (mode p) (content p) (ended pre)"
    let ?v2 = "abort_running (content p) (Component_end (self p) JUndefined JUndefined v1)"
    have js: "joined_settled (mode q1) (content q1) (waiting q1)"
      using fe by (simp add: q1 joined_settled_filter)
    have job: "take_step PromiseJobs (q1, v1) = (q1\<lparr>armed := False\<rparr>, ?v2)"
      using js by (simp add: promise_jobs_def watcher_def Parallel_end_unfold q1)
    have run: "run_steps (pre @ PromiseJobs # post) (snd (Parallel_onRun p ts w)) =
                 run_steps post (q1\<lparr>armed := False\<rparr>, ?v2)"
      unfolding start by (simp only: run_steps_append run_steps_Cons qv job)
    have dis: "\<not> armed (q1\<lparr>armed := False\<rparr>)" by simp
    note d = run_steps_disarmed [OF dis, of post ?v2]
    have st2: "status (comps ?v2 (self p)) = Done"
      by (simp add: abort_running_status)
    have ex: "\<And>c. (\<exists>c'\<in>set (content p).
                 CallEnd c (JStr ''abort by parallel'') JUndefined =
                   CallEnd c' (JStr ''abort by parallel'') JUndefined \<and>
                 status (comps (Component_end (self p) JUndefined JUndefined v1) c') \<noteq> Done) =
               (c \<in> set (content p) \<and> c \<notin> set (ended pre) \<and> status (comps w c) \<noteq> Done)"
      using assms(1) by (auto simp: s1)
    have cs: "count_list (trace ?v2) (CallEnd (self p) JUndefined JUndefined) =
                count_list (trace w) (CallEnd (self p) JUndefined JUndefined) + 1"
      by (simp add: abort_running_count c1)
    have ca: "\<And>c. count_list (trace ?v2) (CallEnd c (JStr ''abort by parallel'') JUndefined) =
                 count_list (trace w) (CallEnd c (JStr ''abort by parallel'') JUndefined) +
                 (if c \<in> set (content p) \<and> c \<notin> set (ended pre) \<and> status (comps w c) \<noteq> Done
                  then 1 else 0)"
      unfolding abort_running_count ex by (simp add: c1)
    show "status (comps (snd (run_steps (pre @ PromiseJobs # post) (snd (Parallel_onRun p ts w))))
                     (self p)) = Done \<and>
            count_list (trace (snd (run_steps (pre @ PromiseJobs # post)
                                      (snd (Parallel_onRun p ts w)))))
                (CallEnd (self p) JUndefined JUndefined) =
              count_list (trace w) (CallEnd (self p) JUndefined JUndefined) + 1 \<and>
            (\<forall>c. count_list (trace (snd (run_steps (pre @ PromiseJobs # post)
                                           (snd (Parallel_onRun p ts w)))))
                   (CallEnd c (JStr ''abort by parallel'') JUndefined) =
                 count_list (trace w) (CallEnd c (JStr ''abort by parallel'') JUndefined) +
                 (if c \<in> set (content p) \<and> c \<notin> set (ended pre) \<and> status (comps w c) \<noteq> Done
                  then 1 else 0))"
      unfolding run using d st2 cs ca by simp
  qed
  have e1: "\<forall>c. count_list (trace (Parallel_onEnd p v)) (CallEnd c (JStr ''abort by parallel'') JUndefined) =
              count_list (trace v) (CallEnd c (JStr ''abort by parallel'') JUndefined) +
              (if c \<in> set (content p) \<and> status (comps v c) \<noteq> Done then 1 else 0)"
    by (simp add: Parallel_onEnd_def abort_running_count)
  have e2: "\<forall>c\<in>set (content p). status (comps (Parallel_onEnd p v) c) = Done"
    by (simp add: Parallel_onEnd_def abort_running_status)
  have e3: "Parallel_onEnd p (Parallel_onEnd p v) = Parallel_onEnd p v"
    by (simp add: Parallel_onEnd_def abort_running_idem)
  have e4: "(\<forall>c\<in>set (content p). status (comps v c) = Done) \<longrightarrow> Parallel_onEnd p v = v"
    by (simp add: Parallel_onEnd_def abort_running_all_done)
  show ?thesis
    apply (intro conjI)
          apply (rule A1)
         apply (rule A2)
        apply (rule B)
       apply (rule e1)
      apply (rule e2)
     apply (rule e3)
    apply (rule e4)
    done
qed


lemma three_children_simps [simp]:
  "self (three_children m) = 0" "content (three_children m) = [1, 2, 3]"
  "mode (three_children m) = m"
  by (simp_all add: three_children_def new_Parallel_def)

text \<open>
  The effect log of a race of three children in which the second and the first end in the
  same turn, before the promise jobs run: only the third is aborted.
\<close>

lemma race_example:
  "trace (snd (run_steps [ChildEnds 2, ChildEnds 1, PromiseJobs]
      (snd (Parallel_onRun (three_children ModeRace) (JNum 4) running_world)))) =
     [CallWaitFor 1 ''end'', CallWaitFor 2 ''end'', CallWaitFor 3 ''end'',
      CallRun 1 (JNum 4) JUndefined, CallRun 2 (JNum 4) JUndefined, CallRun 3 (JNum 4) JUndefined,
      CallEnd 0 JUndefined JUndefined,
      CallEnd 3 (JStr ''abort by parallel'') JUndefined]"
  by (simp add: run_steps_def child_ended_def promise_jobs_def watcher_def Parallel_onRun_def
        Let_def three_children_def new_Parallel_def Parallel_end_def Parallel_onEnd_def
        Component_end_def run_to_completion_def emit_def running_world_def empty_world_def
        blank_def)

theorem Parallel_join_policy_witness:
  "self (three_children ModeRace) \<notin> set (content (three_children ModeRace)) \<and>
   status (comps running_world (self (three_children ModeRace))) \<noteq> Done \<and>
   set (ended [ChildEnds 2, ChildEnds 1]) \<subseteq> set (content (three_children ModeRace)) \<and>
   fired_enough ModeRace [1, 2, 3] (ended [ChildEnds 2, ChildEnds 1]) \<and>
   status (comps (snd (run_steps [ChildEnds 2, ChildEnds 1]
      (snd (Parallel_onRun (three_children ModeRace) (JNum 4) running_world)))) 0) \<noteq> Done \<and>
   status (comps (snd (run_steps ([ChildEnds 2, ChildEnds 1] @ PromiseJobs # [ChildEnds 3])
      (snd (Parallel_onRun (three_children ModeRace) (JNum 4) running_world)))) 0) = Done \<and>
   map (\<lambda>c. count_list (trace (snd (run_steps
          ([ChildEnds 2, ChildEnds 1] @ PromiseJobs # [ChildEnds 3])
          (snd (Parallel_onRun (three_children ModeRace) (JNum 4) running_world)))))
          (CallEnd c (JStr ''abort by parallel'') JUndefined)) [1, 2, 3] = [0, 0, 1] \<and>
   map (\<lambda>c. count_list (trace (snd (run_steps ([ChildEnds 2] @ PromiseJobs # [ChildEnds 1])
          (snd (Parallel_onRun (three_children ModeRace) (JNum 4) running_world)))))
          (CallEnd c (JStr ''abort by parallel'') JUndefined)) [1, 2, 3] = [1, 0, 1] \<and>
   \<not> fired_enough ModeAll [1, 2, 3] (ended [ChildEnds 2, PromiseJobs, ChildEnds 1]) \<and>
   status (comps (snd (run_steps [ChildEnds 2, PromiseJobs, ChildEnds 1, PromiseJobs]
      (snd (Parallel_onRun (three_children ModeAll) (JNum 4) running_world)))) 0) \<noteq> Done \<and>
   fired_enough ModeAll [1, 2, 3] (ended [ChildEnds 2, PromiseJobs, ChildEnds 1, ChildEnds 3]) \<and>
   status (comps (snd (run_steps ([ChildEnds 2, PromiseJobs, ChildEnds 1, ChildEnds 3] @
        PromiseJobs # [])
      (snd (Parallel_onRun (three_children ModeAll) (JNum 4) running_world)))) 0) = Done \<and>
   map (\<lambda>c. count_list (trace (snd (run_steps
          ([ChildEnds 2, PromiseJobs, ChildEnds 1, ChildEnds 3] @ PromiseJobs # [])
          (snd (Parallel_onRun (three_children ModeAll) (JNum 4) running_world)))))
          (CallEnd c (JStr ''abort by parallel'') JUndefined)) [1, 2, 3] = [0, 0, 0]"
proof -
  have h1: "\<And>m. self (three_children m) \<notin> set (content (three_children m))"
    and h2: "\<And>m. status (comps running_world (self (three_children m))) \<noteq> Done"
    by (simp_all add: running_world_def empty_world_def blank_def)
  have a: "set (ended [ChildEnds 2, ChildEnds 1]) \<subseteq> set (content (three_children ModeRace))"
    "\<forall>i<length [ChildEnds 2, ChildEnds 1]. [ChildEnds 2, ChildEnds 1] ! i = PromiseJobs \<longrightarrow>
       \<not> fired_enough (mode (three_children ModeRace)) (content (three_children ModeRace))
            (ended (take i [ChildEnds 2, ChildEnds 1]))"
    by (simp_all add: All_less_Suc)
  have b: "set (ended [ChildEnds 2]) \<subseteq> set (content (three_children ModeRace))"
    "\<forall>i<length [ChildEnds 2]. [ChildEnds 2] ! i = PromiseJobs \<longrightarrow>
       \<not> fired_enough (mode (three_children ModeRace)) (content (three_children ModeRace))
            (ended (take i [ChildEnds 2]))"
    by (simp_all add: All_less_Suc)
  have c: "set (ended [ChildEnds 2, PromiseJobs, ChildEnds 1, PromiseJobs]) \<subseteq>
       set (content (three_children ModeAll))"
    "\<forall>i<length [ChildEnds 2, PromiseJobs, ChildEnds 1, PromiseJobs].
       [ChildEnds 2, PromiseJobs, ChildEnds 1, PromiseJobs] ! i = PromiseJobs \<longrightarrow>
       \<not> fired_enough (mode (three_children ModeAll)) (content (three_children ModeAll))
            (ended (take i [ChildEnds 2, PromiseJobs, ChildEnds 1, PromiseJobs]))"
    by (simp_all add: All_less_Suc)
  have d: "set (ended [ChildEnds 2, PromiseJobs, ChildEnds 1, ChildEnds 3]) \<subseteq>
       set (content (three_children ModeAll))"
    "\<forall>i<length [ChildEnds 2, PromiseJobs, ChildEnds 1, ChildEnds 3].
       [ChildEnds 2, PromiseJobs, ChildEnds 1, ChildEnds 3] ! i = PromiseJobs \<longrightarrow>
       \<not> fired_enough (mode (three_children ModeAll)) (content (three_children ModeAll))
            (ended (take i [ChildEnds 2, PromiseJobs, ChildEnds 1, ChildEnds 3]))"
    by (simp_all add: All_less_Suc)
  note ta = Parallel_join_policy [OF h1 h2 a, of "JNum 4" "[ChildEnds 3]"]
  note tb = Parallel_join_policy [OF h1 h2 b, of "JNum 4" "[ChildEnds 1]"]
  note tc = Parallel_join_policy [OF h1 h2 c, of "JNum 4"]
  note td = Parallel_join_policy [OF h1 h2 d, of "JNum 4" "[]"]
  have w: "\<And>c. status (comps running_world c) \<noteq> Done"
    by (simp add: running_world_def empty_world_def blank_def)
  have n: "\<And>a r t. count_list (trace running_world) (CallEnd a r t) = 0"
    by (simp add: running_world_def empty_world_def)
  from ta have ra: "status (comps (snd (run_steps [ChildEnds 2, ChildEnds 1]
      (snd (Parallel_onRun (three_children ModeRace) (JNum 4) running_world)))) 0) \<noteq> Done"
    "status (comps (snd (run_steps ([ChildEnds 2, ChildEnds 1] @ PromiseJobs # [ChildEnds 3])
      (snd (Parallel_onRun (three_children ModeRace) (JNum 4) running_world)))) 0) = Done"
    "map (\<lambda>c. count_list (trace (snd (run_steps
          ([ChildEnds 2, ChildEnds 1] @ PromiseJobs # [ChildEnds 3])
          (snd (Parallel_onRun (three_children ModeRace) (JNum 4) running_world)))))
          (CallEnd c (JStr ''abort by parallel'') JUndefined)) [1, 2, 3] = [0, 0, 1]"
    by (simp_all add: w n)
  from tb have rb: "map (\<lambda>c. count_list (trace (snd (run_steps
          ([ChildEnds 2] @ PromiseJobs # [ChildEnds 1])
          (snd (Parallel_onRun (three_children ModeRace) (JNum 4) running_world)))))
          (CallEnd c (JStr ''abort by parallel'') JUndefined)) [1, 2, 3] = [1, 0, 1]"
    by (simp add: w n)
  from tc have rc: "status (comps (snd (run_steps [ChildEnds 2, PromiseJobs, ChildEnds 1, PromiseJobs]
      (snd (Parallel_onRun (three_children ModeAll) (JNum 4) running_world)))) 0) \<noteq> Done"
    by simp
  from td have rd: "status (comps (snd (run_steps
        ([ChildEnds 2, PromiseJobs, ChildEnds 1, ChildEnds 3] @ PromiseJobs # [])
      (snd (Parallel_onRun (three_children ModeAll) (JNum 4) running_world)))) 0) = Done"
    "map (\<lambda>c. count_list (trace (snd (run_steps
          ([ChildEnds 2, PromiseJobs, ChildEnds 1, ChildEnds 3] @ PromiseJobs # [])
          (snd (Parallel_onRun (three_children ModeAll) (JNum 4) running_world)))))
          (CallEnd c (JStr ''abort by parallel'') JUndefined)) [1, 2, 3] = [0, 0, 0]"
    by (simp_all add: w n)
  show ?thesis
    using h2 [of ModeRace] ra rb rc rd by simp
qed

section \<open>Failures during preparation\<close>

lemma first_rejection_in:
  "first_rejection ps = Some (t, e) \<Longrightarrow> At t (Rejected e) \<in> set ps"
  by (induction ps arbitrary: t e rule: first_rejection.induct)
     (auto split: option.splits if_splits)

lemma first_rejection_least:
  "At t (Rejected e) \<in> set ps \<Longrightarrow> \<exists>t' e'. first_rejection ps = Some (t', e') \<and> t' \<le> t"
  by (induction ps rule: first_rejection.induct)
     (auto split: option.splits if_splits)

lemma first_rejection_member:
  "At t (Rejected e) \<in> set ps \<Longrightarrow>
   \<exists>t' e'. first_rejection ps = Some (t', e') \<and> t' \<le> t \<and> At t' (Rejected e') \<in> set ps"
  using first_rejection_least [of t e ps] first_rejection_in [of ps] by blast

lemma Promise_all_fail_fast:
  "At t (Rejected e) \<in> set ps \<Longrightarrow>
   \<exists>t' e'. Promise_all ps = At t' (Rejected e') \<and> t' \<le> t \<and> At t' (Rejected e') \<in> set ps"
  using first_rejection_member [of t e ps] by (auto simp: Promise_all_def)

lemma prepareNested_promise:
  "fst (prepareNested ev nested p w) = Promise_all (map (prepare_of ev) nested)"
  by (simp add: prepareNested_def Let_def split_def prepare_children_fst)

lemma Sequence_onPrepare_fail_fast:
  assumes "c \<in> set (if shuffle s then shuffle_of ev (content s) else content s)"
    and "prepare_of ev c = At t (Rejected e)"
  shows "\<exists>t' e'. fst (Sequence_onPrepare ev s w) = ReturnsPromise (At t' (Rejected e')) \<and> t' \<le> t"
proof -
  let ?cs = "if shuffle s then shuffle_of ev (content s) else content s"
  have "prepare_of ev c \<in> prepare_of ev ` set ?cs"
    using assms(1) by (rule imageI)
  then have "At t (Rejected e) \<in> set (map (prepare_of ev) ?cs)"
    using assms(2) by simp
  from Promise_all_fail_fast [OF this] obtain t' e'
    where "Promise_all (map (prepare_of ev) ?cs) = At t' (Rejected e')" and "t' \<le> t"
    by blast
  then show ?thesis
    by (auto simp: Sequence_onPrepare_def Let_def split_def prepareNested_promise)
qed

lemma Parallel_onPrepare_returns_undefined:
  "fst (Parallel_onPrepare ev p w) = ReturnsUndefined"
  by (simp add: Parallel_onPrepare_def split_def)

text \<open>
  Claim C1 says that a failure of a child's \<^verbatim>\<open>prepare\<close> reaches the future that the
  container's own preparation returns, for a sequence and for a parallel alike.
  \<^verbatim>\<open>prepareNested\<close> and \<^verbatim>\<open>Sequence.onPrepare\<close> do that (the lemmas above). With
  children 1 and 2, of which the second is rejected at time 3 with the error "boom",
  \<^verbatim>\<open>Parallel.onPrepare\<close> starts the same preparation and returns
  \<^verbatim>\<open>undefined\<close>: awaiting it goes on at once, before either child has settled, and
  the rejection is lost.
\<close>

theorem Parallel_onPrepare_drops_rejection:
  "fst (prepareNested failing_env [1, 2] 0 running_world) = At 3 (Rejected (Error ''boom'')) \<and>
   fst (Sequence_onPrepare failing_env (new_Sequence 0 (Some [1, 2]) None) running_world) =
     ReturnsPromise (At 3 (Rejected (Error ''boom''))) \<and>
   fst (Parallel_onPrepare failing_env (new_Parallel 0 (Some [1, 2]) None) running_world) =
     ReturnsUndefined \<and>
   awaited (fst (Parallel_onPrepare failing_env (new_Parallel 0 (Some [1, 2]) None) running_world)) =
     At 0 (Fulfilled ()) \<and>
   CallPrepare 2 False \<in>
     set (trace (snd (Parallel_onPrepare failing_env (new_Parallel 0 (Some [1, 2]) None)
                       running_world)))"
  by (simp add: prepareNested_def Sequence_onPrepare_def Parallel_onPrepare_def Promise_all_def
        failing_env_def quiet_env_def new_Sequence_def new_Parallel_def Let_def
        running_world_def empty_world_def blank_def set_parent_def set_id_def emit_def)

end
